theory Spec2Isabelle
  imports Complex_Main "HOL-Library.AList" "HOL-Library.Char_ord" "HOL-Library.List_Lexorder"
begin

section \<open>Python values, dictionaries and exceptions\<close>

text \<open>
  The Python sources pass untyped dictionaries around (Qdrant payloads, enrichment
  results, search-result metadata).  They are modelled by a small universe of Python
  values; a dictionary with string keys is an association list, so that insertion order
  is kept.  Python floats are idealised as reals throughout.
\<close>

datatype pyval =
    PNone
  | PBool bool
  | PInt int
  | PFloat real
  | PStr string
  | PList "pyval list"
  | PDict "(string \<times> pyval) list"

type_synonym pydict = "(string \<times> pyval) list"

text \<open>Python truthiness (\<^verbatim>\<open>if x:\<close>, \<^verbatim>\<open>not x\<close>).\<close>

fun truthy :: "pyval \<Rightarrow> bool" where
  "truthy PNone = False"
| "truthy (PBool b) = b"
| "truthy (PInt i) = (i \<noteq> 0)"
| "truthy (PFloat x) = (x \<noteq> 0)"
| "truthy (PStr s) = (s \<noteq> [])"
| "truthy (PList xs) = (xs \<noteq> [])"
| "truthy (PDict d) = (d \<noteq> [])"

text \<open>\<^verbatim>\<open>d.get(k)\<close> and \<^verbatim>\<open>d.get(k, default)\<close> on a dictionary.\<close>

definition dict_get_default :: "pydict \<Rightarrow> string \<Rightarrow> pyval \<Rightarrow> pyval" where
  "dict_get_default d k dflt = (case map_of d k of None \<Rightarrow> dflt | Some v \<Rightarrow> v)"

definition dict_get :: "pydict \<Rightarrow> string \<Rightarrow> pyval" where
  "dict_get d k = dict_get_default d k PNone"

text \<open>\<^verbatim>\<open>d[k] = v\<close>: an existing key keeps its position, a new key goes to the end.\<close>

definition dict_set :: "string \<Rightarrow> pyval \<Rightarrow> pydict \<Rightarrow> pydict" where
  "dict_set k v d = AList.update k v d"

text \<open>
  Exceptions are values.  \<open>RemoteError\<close> stands for whatever a remote client (Redis,
  Qdrant) raises, with its message.
\<close>

datatype exn =
    TypeError
  | AttributeError
  | ZeroDivisionError
  | RemoteError string

fun exn_message :: "exn \<Rightarrow> string" where
  "exn_message TypeError = ''TypeError''"
| "exn_message AttributeError = ''AttributeError''"
| "exn_message ZeroDivisionError = ''float division by zero''"
| "exn_message (RemoteError m) = m"

text \<open>
  Numbers: \<^verbatim>\<open>int\<close>, \<^verbatim>\<open>float\<close> and \<^verbatim>\<open>bool\<close> take part in arithmetic, other
  values raise \<^verbatim>\<open>TypeError\<close> there.
\<close>

fun py_num :: "pyval \<Rightarrow> real option" where
  "py_num (PInt i) = Some (real_of_int i)"
| "py_num (PFloat x) = Some x"
| "py_num (PBool b) = Some (if b then 1 else 0)"
| "py_num _ = None"

text \<open>
  Case conversion of text.  Strings are byte strings here; the conversions act on the
  ASCII letters and leave every other byte alone.
\<close>

definition ascii_lowercase :: string where
  "ascii_lowercase = ''abcdefghijklmnopqrstuvwxyz''"

definition ascii_uppercase :: string where
  "ascii_uppercase = ''ABCDEFGHIJKLMNOPQRSTUVWXYZ''"

definition upper_char :: "char \<Rightarrow> char" where
  "upper_char c = (case map_of (zip ascii_lowercase ascii_uppercase) c of Some u \<Rightarrow> u | None \<Rightarrow> c)"

definition lower_char :: "char \<Rightarrow> char" where
  "lower_char c = (case map_of (zip ascii_uppercase ascii_lowercase) c of Some l \<Rightarrow> l | None \<Rightarrow> c)"

definition is_alpha :: "char \<Rightarrow> bool" where
  "is_alpha c = (c \<in> set ascii_lowercase \<or> c \<in> set ascii_uppercase)"

definition upper :: "string \<Rightarrow> string" where
  "upper s = map upper_char s"

definition lower :: "string \<Rightarrow> string" where
  "lower s = map lower_char s"

text \<open>\<^verbatim>\<open>str.title\<close>: a letter after a non-letter is upper-cased, the other letters lower-cased.\<close>

fun title_from :: "bool \<Rightarrow> string \<Rightarrow> string" where
  "title_from inside [] = []"
| "title_from inside (c # cs) =
     (if is_alpha c then (if inside then lower_char c else upper_char c) # title_from True cs
      else c # title_from False cs)"

definition title :: "string \<Rightarrow> string" where
  "title s = title_from False s"

definition is_space :: "char \<Rightarrow> bool" where
  "is_space c = (c \<in> set [CHR '' '', CHR 0x09, CHR 0x0A, CHR 0x0B, CHR 0x0C, CHR 0x0D])"

text \<open>\<^verbatim>\<open>str.strip\<close> and \<^verbatim>\<open>str.split\<close> (on white space).\<close>

definition strip :: "string \<Rightarrow> string" where
  "strip s = rev (dropWhile is_space (rev (dropWhile is_space s)))"

fun split_from :: "string \<Rightarrow> string \<Rightarrow> string list" where
  "split_from w [] = (if w = [] then [] else [w])"
| "split_from w (c # cs) =
     (if is_space c then (if w = [] then split_from [] cs else w # split_from [] cs)
      else split_from (w @ [c]) cs)"

definition split :: "string \<Rightarrow> string list" where
  "split s = split_from [] s"

text \<open>\<^verbatim>\<open>p in s\<close> for strings, and \<^verbatim>\<open>sep.join(parts)\<close>.\<close>

definition startswith :: "string \<Rightarrow> string \<Rightarrow> bool" where
  "startswith s p = (take (length p) s = p)"

fun contains :: "string \<Rightarrow> string \<Rightarrow> bool" where
  "contains [] p = (p = [])"
| "contains (c # cs) p = (startswith (c # cs) p \<or> contains cs p)"

fun join :: "string \<Rightarrow> string list \<Rightarrow> string" where
  "join sep [] = []"
| "join sep [x] = x"
| "join sep (x # y # ys) = x @ sep @ join sep (y # ys)"

text \<open>Sequencing of computations that may raise.\<close>

definition and_then :: "exn + 'a \<Rightarrow> ('a \<Rightarrow> exn + 'b) \<Rightarrow> exn + 'b" where
  "and_then r f = (case r of Inl e \<Rightarrow> Inl e | Inr x \<Rightarrow> f x)"

text \<open>
  \<^verbatim>\<open>x.get(k, default)\<close> on an arbitrary value: anything but a dictionary has no
  \<^verbatim>\<open>get\<close> and raises \<^verbatim>\<open>AttributeError\<close>.
\<close>

fun py_get :: "pyval \<Rightarrow> string \<Rightarrow> pyval \<Rightarrow> exn + pyval" where
  "py_get (PDict d) k dflt = Inr (dict_get_default d k dflt)"
| "py_get _ k dflt = Inl AttributeError"

text \<open>
  \<^verbatim>\<open>x[:n]\<close>: lists and strings are sliced, every other value raises
  \<^verbatim>\<open>TypeError\<close>.
\<close>

fun py_slice_to :: "nat \<Rightarrow> pyval \<Rightarrow> exn + pyval" where
  "py_slice_to n (PList xs) = Inr (PList (take n xs))"
| "py_slice_to n (PStr s) = Inr (PStr (take n s))"
| "py_slice_to n _ = Inl TypeError"

text \<open>
  Iterating a value in a comprehension: a list yields its elements, a string its
  characters (one-character strings); other values are not sliceable, so they never
  reach an iteration in the code modelled here.
\<close>

fun py_elements :: "pyval \<Rightarrow> pyval list" where
  "py_elements (PList xs) = xs"
| "py_elements (PStr s) = map (\<lambda>c. PStr [c]) s"
| "py_elements _ = []"

fun is_dict :: "pyval \<Rightarrow> bool" where
  "is_dict (PDict d) = True"
| "is_dict _ = False"


section \<open>Enrichment write-back (enrichment/persister.py)\<close>

text \<open>
  What \<^verbatim>\<open>qdrant.retrieve\<close> hands back for one id: a client record with a payload
  attribute (which may be \<^verbatim>\<open>None\<close>), a plain dictionary (the mock used in tests), or
  something else.
\<close>

datatype point = Record "pydict option" | MockDict pydict | Unexpected

text \<open>
  The vector store as the persister sees it: the stored points, and whether the two
  remote calls go through (a call that does not go through raises).
\<close>

record qdrant_store =
  points :: "string \<rightharpoonup> point"
  retrieve_up :: bool
  set_payload_up :: bool

definition retrieve :: "qdrant_store \<Rightarrow> string \<Rightarrow> exn + point list" where
  "retrieve q document_id =
     (if \<not> retrieve_up q then Inl (RemoteError ''retrieve failed'')
      else Inr (case points q document_id of None \<Rightarrow> [] | Some p \<Rightarrow> [p]))"

text \<open>
  \<^verbatim>\<open>set_payload\<close> of the store merges the given keys into the payload of the point:
  given keys are overwritten, the others stay.
\<close>

definition merge_payload :: "pydict \<Rightarrow> pydict \<Rightarrow> pydict" where
  "merge_payload old new = new @ filter (\<lambda>(k, v). map_of new k = None) old"

fun write_point :: "point \<Rightarrow> pydict \<Rightarrow> point" where
  "write_point (Record None) new = Record (Some new)"
| "write_point (Record (Some old)) new = Record (Some (merge_payload old new))"
| "write_point (MockDict m) new =
     (case map_of m ''payload'' of
        Some (PDict old) \<Rightarrow> MockDict (dict_set ''payload'' (PDict (merge_payload old new)) m)
      | _ \<Rightarrow> MockDict (merge_payload m new))"
| "write_point Unexpected new = Unexpected"

definition set_payload :: "qdrant_store \<Rightarrow> pydict \<Rightarrow> string \<Rightarrow> exn + qdrant_store" where
  "set_payload q payload document_id =
     (if \<not> set_payload_up q then Inl (RemoteError ''set_payload failed'')
      else Inr (case points q document_id of
                  None \<Rightarrow> q
                | Some p \<Rightarrow> q\<lparr>points := (points q)(document_id \<mapsto> write_point p payload)\<rparr>))"

text \<open>
  \<^verbatim>\<open>dict(x)\<close>: a dictionary is copied; an empty list or string gives the empty
  dictionary; \<^verbatim>\<open>None\<close>, numbers and booleans raise \<^verbatim>\<open>TypeError\<close>.  Non-empty
  sequences of pairs are not payloads the store returns and are taken to raise as well.
\<close>

fun py_dict :: "pyval \<Rightarrow> exn + pydict" where
  "py_dict (PDict d) = Inr d"
| "py_dict (PList []) = Inr []"
| "py_dict (PStr []) = Inr []"
| "py_dict _ = Inl TypeError"

text \<open>
  Lines 111-120: the copy of the current payload.  \<open>None\<close> is the branch that logs
  "Unexpected document type" and returns \<^verbatim>\<open>False\<close> without raising.
\<close>

fun copy_payload :: "point \<Rightarrow> (exn + pydict) option" where
  "copy_payload (Record None) = Some (Inl TypeError)"
| "copy_payload (Record (Some d)) = Some (Inr d)"
| "copy_payload (MockDict m) = Some (py_dict (dict_get_default m ''payload'' (PDict m)))"
| "copy_payload Unexpected = None"

text \<open>One entry of \<^verbatim>\<open>images_unsplash\<close>, built from one Unsplash result.\<close>

definition unsplash_entry :: "pyval \<Rightarrow> exn + pyval" where
  "unsplash_entry img =
     and_then (py_get img ''urls'' (PDict [])) (\<lambda>urls.
     and_then (py_get urls ''regular'' PNone) (\<lambda>url.
     and_then (py_get img ''user'' (PDict [])) (\<lambda>user.
     and_then (py_get user ''name'' PNone) (\<lambda>photographer.
     and_then (py_get img ''alt_description'' PNone) (\<lambda>alt.
       Inr (PDict [(''url'', url), (''photographer'', photographer), (''alt'', alt)]))))))"

text \<open>The comprehension of lines 135-143: the first entry that raises aborts it.\<close>

fun unsplash_entries :: "pyval list \<Rightarrow> exn + pyval list" where
  "unsplash_entries [] = Inr []"
| "unsplash_entries (img # imgs) =
     (if is_dict img
      then and_then (unsplash_entry img) (\<lambda>e.
           and_then (unsplash_entries imgs) (\<lambda>es. Inr (e # es)))
      else unsplash_entries imgs)"

text \<open>
  Lines 122-151 in three steps; each carries the payload under construction and the
  list \<^verbatim>\<open>enriched_fields\<close>.
\<close>

definition add_wikipedia_content :: "pydict \<Rightarrow> pydict \<times> string list \<Rightarrow> pydict \<times> string list" where
  "add_wikipedia_content enrichment_data st =
     (case st of (updated_payload, enriched_fields) \<Rightarrow>
        if truthy (dict_get enrichment_data ''wikipedia_content'')
        then (dict_set ''description_enriched'' (dict_get enrichment_data ''wikipedia_content'')
                updated_payload,
              enriched_fields @ [''wikipedia_content''])
        else (updated_payload, enriched_fields))"

definition add_wikipedia_images ::
  "pydict \<Rightarrow> pydict \<times> string list \<Rightarrow> exn + pydict \<times> string list" where
  "add_wikipedia_images enrichment_data st =
     (case st of (updated_payload, enriched_fields) \<Rightarrow>
        if truthy (dict_get enrichment_data ''wikipedia_images'')
        then and_then (py_slice_to 5 (dict_get enrichment_data ''wikipedia_images'')) (\<lambda>imgs.
               Inr (dict_set ''images_wikipedia'' imgs updated_payload,
                    enriched_fields @ [''wikipedia_images'']))
        else Inr (updated_payload, enriched_fields))"

definition add_unsplash_images ::
  "pydict \<Rightarrow> pydict \<times> string list \<Rightarrow> exn + pydict \<times> string list" where
  "add_unsplash_images enrichment_data st =
     (case st of (updated_payload, enriched_fields) \<Rightarrow>
        if truthy (dict_get enrichment_data ''unsplash_images'')
        then (if \<not> truthy (dict_get updated_payload ''image_url'')
              then and_then (py_slice_to 5 (dict_get enrichment_data ''unsplash_images'')) (\<lambda>s.
                   and_then (unsplash_entries (py_elements s)) (\<lambda>imgs.
                     Inr (dict_set ''images_unsplash'' (PList imgs) updated_payload,
                          enriched_fields @ [''unsplash_images''])))
              else Inr (updated_payload, enriched_fields))
        else Inr (updated_payload, enriched_fields))"

text \<open>
  Lines 147-151.  \<open>now\<close> is the text of
  \<^verbatim>\<open>datetime.now(timezone.utc).isoformat()\<close>.
\<close>

definition add_enrichment_metadata :: "string \<Rightarrow> pydict \<Rightarrow> pydict \<times> string list \<Rightarrow> pydict" where
  "add_enrichment_metadata now enrichment_data st =
     (case st of (updated_payload, enriched_fields) \<Rightarrow>
        dict_set ''enriched_fields'' (PList (map PStr enriched_fields))
          (dict_set ''is_enriched'' (PBool True)
            (dict_set ''enrichment_sources''
               (dict_get_default enrichment_data ''enrichment_sources'' (PList []))
              (dict_set ''enriched_at'' (PStr now) updated_payload))))"

definition build_updated_payload :: "string \<Rightarrow> pydict \<Rightarrow> pydict \<Rightarrow> exn + pydict" where
  "build_updated_payload now current_payload enrichment_data =
     and_then (add_wikipedia_images enrichment_data
                 (add_wikipedia_content enrichment_data (current_payload, []))) (\<lambda>st.
     and_then (add_unsplash_images enrichment_data st) (\<lambda>st'.
       Inr (add_enrichment_metadata now enrichment_data st')))"

text \<open>
  \<^verbatim>\<open>_persist_enrichment_sync\<close>: every exception is caught and turned into
  \<^verbatim>\<open>False\<close>; the store changes only through the final \<^verbatim>\<open>set_payload\<close>.
\<close>

definition persist_enrichment_sync ::
  "string \<Rightarrow> qdrant_store \<Rightarrow> string \<Rightarrow> pydict \<Rightarrow> bool \<times> qdrant_store" where
  "persist_enrichment_sync now q document_id enrichment_data =
     (case retrieve q document_id of
        Inl e \<Rightarrow> (False, q)
      | Inr [] \<Rightarrow> (False, q)
      | Inr (current # rest) \<Rightarrow>
          (case copy_payload current of
             None \<Rightarrow> (False, q)
           | Some (Inl e) \<Rightarrow> (False, q)
           | Some (Inr current_payload) \<Rightarrow>
               (case build_updated_payload now current_payload enrichment_data of
                  Inl e \<Rightarrow> (False, q)
                | Inr updated_payload \<Rightarrow>
                    (case set_payload q updated_payload document_id of
                       Inl e \<Rightarrow> (False, q)
                     | Inr q' \<Rightarrow> (True, q')))))"

text \<open>The payload of a stored point as the write-back reads it, and one field of it.\<close>

definition stored_payload :: "qdrant_store \<Rightarrow> string \<Rightarrow> pydict option" where
  "stored_payload q document_id =
     (case points q document_id of
        None \<Rightarrow> None
      | Some p \<Rightarrow> (case copy_payload p of Some (Inr d) \<Rightarrow> Some d | _ \<Rightarrow> None))"


section \<open>Two-level cache (utils/CacheManager.py)\<close>

text \<open>
  The remote store behind the cache manager.  An entry holds the serialised value and,
  when it was written with \<^verbatim>\<open>setex\<close>, the time at which it expires.  The clock is in
  seconds; \<open>reachable\<close> says whether a call goes through (a call that does not raises).
\<close>

record redis_client =
  rstore :: "(string \<times> string \<times> nat option) list"
  rclock :: nat
  reachable :: bool

definition redis_live :: "redis_client \<Rightarrow> string \<Rightarrow> string option" where
  "redis_live r cache_key =
     (case map_of (rstore r) cache_key of
        None \<Rightarrow> None
      | Some (s, None) \<Rightarrow> Some s
      | Some (s, Some deadline) \<Rightarrow> if rclock r < deadline then Some s else None)"

definition redis_get :: "redis_client \<Rightarrow> string \<Rightarrow> exn + string option" where
  "redis_get r cache_key =
     (if reachable r then Inr (redis_live r cache_key) else Inl (RemoteError ''redis unreachable''))"

definition redis_set :: "redis_client \<Rightarrow> string \<Rightarrow> string \<Rightarrow> exn + redis_client" where
  "redis_set r cache_key serialized =
     (if reachable r
      then Inr (r\<lparr>rstore := AList.update cache_key (serialized, None) (rstore r)\<rparr>)
      else Inl (RemoteError ''redis unreachable''))"

text \<open>\<^verbatim>\<open>setex\<close> rejects a time-to-live that is not positive.\<close>

definition redis_setex :: "redis_client \<Rightarrow> string \<Rightarrow> int \<Rightarrow> string \<Rightarrow> exn + redis_client" where
  "redis_setex r cache_key ttl serialized =
     (if \<not> reachable r then Inl (RemoteError ''redis unreachable'')
      else if ttl \<le> 0 then Inl (RemoteError ''invalid expire time'')
      else Inr (r\<lparr>rstore :=
                   AList.update cache_key (serialized, Some (rclock r + nat ttl)) (rstore r)\<rparr>))"

definition redis_delete :: "redis_client \<Rightarrow> string list \<Rightarrow> exn + nat \<times> redis_client" where
  "redis_delete r cache_keys =
     (if reachable r
      then Inr (length (filter (\<lambda>k. redis_live r k \<noteq> None) (remdups cache_keys)),
                r\<lparr>rstore := filter (\<lambda>(k, e). k \<notin> set cache_keys) (rstore r)\<rparr>)
      else Inl (RemoteError ''redis unreachable''))"

text \<open>
  \<^verbatim>\<open>keys(namespace + ":*")\<close>; the namespace is taken literally, glob characters in
  it are not interpreted.
\<close>

definition redis_keys :: "redis_client \<Rightarrow> string \<Rightarrow> exn + string list" where
  "redis_keys r p =
     (if reachable r
      then Inr (filter (\<lambda>k. startswith k p \<and> redis_live r k \<noteq> None) (map fst (rstore r)))
      else Inl (RemoteError ''redis unreachable''))"

text \<open>
  \<^verbatim>\<open>json.dumps(value, ensure_ascii=False, default=str)\<close> and \<^verbatim>\<open>json.loads\<close>
  belong to the Python library; they are parameters of the model.  \<open>None\<close> means that
  the call raises.
\<close>

record 'v codec =
  dumps :: "'v \<Rightarrow> string option"
  loads :: "string \<Rightarrow> 'v option"

text \<open>
  The statistics dictionary holds one counter dictionary per namespace (and
  \<^verbatim>\<open>'global'\<close>); a namespace not seen yet counts as all zeros.  The entries
  \<^verbatim>\<open>'permanent_sets'\<close> and \<^verbatim>\<open>'temporary_sets'\<close> of the same dictionary are
  plain integers.
\<close>

record 'v cache_manager =
  redis :: "redis_client option"
  default_ttl :: int
  memory_cache :: "(string \<times> 'v) list"
  stats :: "string \<Rightarrow> string \<Rightarrow> nat"
  permanent_sets :: nat
  temporary_sets :: nat

definition init_cache_manager :: "redis_client option \<Rightarrow> int \<Rightarrow> 'v cache_manager" where
  "init_cache_manager redis_client ttl =
     \<lparr>redis = redis_client, default_ttl = ttl, memory_cache = [],
      stats = (\<lambda>ns st. 0), permanent_sets = 0, temporary_sets = 0\<rparr>"

definition make_key :: "string \<Rightarrow> string \<Rightarrow> string" where
  "make_key namespace key = namespace @ '':'' @ key"

text \<open>
  \<^verbatim>\<open>_increment_stat\<close>.  For the two namespaces whose statistics entry is an integer,
  \<^verbatim>\<open>self.stats[namespace].get\<close> raises \<^verbatim>\<open>AttributeError\<close>.
\<close>

definition int_stat :: "string \<Rightarrow> bool" where
  "int_stat namespace = (namespace = ''permanent_sets'' \<or> namespace = ''temporary_sets'')"

definition bump :: "string \<Rightarrow> string \<Rightarrow> 'v cache_manager \<Rightarrow> 'v cache_manager" where
  "bump namespace stat cm =
     cm\<lparr>stats := (stats cm)(namespace := (stats cm namespace)(stat := stats cm namespace stat + 1))\<rparr>"

definition increment_stat :: "string \<Rightarrow> string \<Rightarrow> 'v cache_manager \<Rightarrow> exn + 'v cache_manager" where
  "increment_stat namespace stat cm =
     (if int_stat namespace then Inl AttributeError else Inr (bump namespace stat cm))"

text \<open>Both counters of one event: the namespace's and the global one.\<close>

definition count_stat :: "string \<Rightarrow> string \<Rightarrow> 'v cache_manager \<Rightarrow> 'v cache_manager" where
  "count_stat namespace stat cm = bump ''global'' stat (bump namespace stat cm)"

text \<open>
  \<^verbatim>\<open>get\<close>, lines 113-121: the process-local dictionary.
\<close>

definition get_memory ::
  "'v cache_manager \<Rightarrow> string \<Rightarrow> string \<Rightarrow> (exn + 'v option) \<times> 'v cache_manager" where
  "get_memory cm namespace cache_key =
     (if int_stat namespace then (Inl AttributeError, cm)
      else case map_of (memory_cache cm) cache_key of
             Some v \<Rightarrow> (Inr (Some v), count_stat namespace ''hits'' cm)
           | None \<Rightarrow> (Inr None, count_stat namespace ''misses'' cm))"

text \<open>
  \<^verbatim>\<open>get\<close>.  With a remote store, a non-empty remote value is decoded and returned; a
  remote miss, an empty value, a remote error or a decoding error fall through to the
  process-local dictionary.  In the namespaces with an integer statistics entry every
  path raises (inside the \<^verbatim>\<open>try\<close> the handler raises again).
\<close>

definition get ::
  "'v codec \<Rightarrow> 'v cache_manager \<Rightarrow> string \<Rightarrow> string \<Rightarrow> (exn + 'v option) \<times> 'v cache_manager" where
  "get cd cm namespace key =
     (let cache_key = make_key namespace key in
      if int_stat namespace then (Inl AttributeError, cm)
      else case redis cm of
        None \<Rightarrow> get_memory cm namespace cache_key
      | Some r \<Rightarrow>
          (case redis_get r cache_key of
             Inl e \<Rightarrow> get_memory (count_stat namespace ''errors'' cm) namespace cache_key
           | Inr None \<Rightarrow> get_memory (count_stat namespace ''misses'' cm) namespace cache_key
           | Inr (Some s) \<Rightarrow>
               if s = [] then get_memory (count_stat namespace ''misses'' cm) namespace cache_key
               else (case loads cd s of
                       Some v \<Rightarrow> (Inr (Some v), count_stat namespace ''hits'' cm)
                     | None \<Rightarrow>
                         get_memory (count_stat namespace ''errors'' (count_stat namespace ''hits'' cm))
                           namespace cache_key)))"

text \<open>
  The part \<^verbatim>\<open>set\<close> and \<^verbatim>\<open>set_permanent\<close> share once the value is serialised:
  the remote write \<open>w\<close> (its failure is counted and otherwise ignored), the write to the
  process-local dictionary, the counters.  \<open>perm\<close> selects the counter of the tier.
\<close>

definition store_value ::
  "bool \<Rightarrow> (redis_client \<Rightarrow> exn + redis_client) \<Rightarrow> 'v cache_manager \<Rightarrow> string \<Rightarrow> string \<Rightarrow> 'v
     \<Rightarrow> (exn + bool) \<times> 'v cache_manager" where
  "store_value perm w cm namespace cache_key v =
     (let remote =
            (case redis cm of
               None \<Rightarrow> Inr cm
             | Some r \<Rightarrow>
                 (case w r of
                    Inr r' \<Rightarrow> Inr (cm\<lparr>redis := Some r'\<rparr>)
                  | Inl e \<Rightarrow>
                      if int_stat namespace then Inl AttributeError
                      else Inr (count_stat namespace ''errors'' cm)))
      in case remote of
           Inl e \<Rightarrow> (Inl e, cm)
         | Inr cm1 \<Rightarrow>
             (let cm2 = cm1\<lparr>memory_cache := AList.update cache_key v (memory_cache cm1)\<rparr>
              in if int_stat namespace then (Inl AttributeError, cm2)
                 else (Inr True,
                       (if perm
                        then (count_stat namespace ''sets'' cm2)\<lparr>permanent_sets := permanent_sets cm2 + 1\<rparr>
                        else (count_stat namespace ''sets'' cm2)\<lparr>temporary_sets := temporary_sets cm2 + 1\<rparr>))))"

text \<open>What both writers do when \<^verbatim>\<open>json.dumps\<close> raises.\<close>

definition store_failed :: "'v cache_manager \<Rightarrow> string \<Rightarrow> (exn + bool) \<times> 'v cache_manager" where
  "store_failed cm namespace =
     (if int_stat namespace then (Inl AttributeError, cm)
      else (Inr False, count_stat namespace ''errors'' cm))"

text \<open>\<^verbatim>\<open>ttl or self.default_ttl\<close>.\<close>

definition effective_ttl :: "int option \<Rightarrow> int \<Rightarrow> int" where
  "effective_ttl ttl dflt = (case ttl of None \<Rightarrow> dflt | Some t \<Rightarrow> if t = 0 then dflt else t)"

definition set_temp ::
  "'v codec \<Rightarrow> 'v cache_manager \<Rightarrow> string \<Rightarrow> string \<Rightarrow> 'v \<Rightarrow> int option
     \<Rightarrow> (exn + bool) \<times> 'v cache_manager" where
  "set_temp cd cm namespace key v ttl =
     (let cache_key = make_key namespace key;
          ttl' = effective_ttl ttl (default_ttl cm)
      in case dumps cd v of
           None \<Rightarrow> store_failed cm namespace
         | Some serialized \<Rightarrow>
             store_value False (\<lambda>r. redis_setex r cache_key ttl' serialized)
               cm namespace cache_key v)"

definition set_permanent ::
  "'v codec \<Rightarrow> 'v cache_manager \<Rightarrow> string \<Rightarrow> string \<Rightarrow> 'v \<Rightarrow> (exn + bool) \<times> 'v cache_manager" where
  "set_permanent cd cm namespace key v =
     (let cache_key = make_key namespace key
      in case dumps cd v of
           None \<Rightarrow> store_failed cm namespace
         | Some serialized \<Rightarrow>
             store_value True (\<lambda>r. redis_set r cache_key serialized)
               cm namespace cache_key v)"

text \<open>\<^verbatim>\<open>delete\<close>: a remote error is logged and ignored.\<close>

definition delete :: "'v cache_manager \<Rightarrow> string \<Rightarrow> string \<Rightarrow> bool \<times> 'v cache_manager" where
  "delete cm namespace key =
     (let cache_key = make_key namespace key;
          cm1 = (case redis cm of
                   None \<Rightarrow> cm
                 | Some r \<Rightarrow> (case redis_delete r [cache_key] of
                               Inr (n, r') \<Rightarrow> cm\<lparr>redis := Some r'\<rparr>
                             | Inl e \<Rightarrow> cm));
          cm2 = cm1\<lparr>memory_cache := AList.delete cache_key (memory_cache cm1)\<rparr>
      in (True, bump ''global'' ''deletes'' cm2))"

definition clear_namespace :: "'v cache_manager \<Rightarrow> string \<Rightarrow> nat \<times> 'v cache_manager" where
  "clear_namespace cm namespace =
     (let p = namespace @ '':'';
          (n, cm1) =
            (case redis cm of
               None \<Rightarrow> (0, cm)
             | Some r \<Rightarrow>
                 (case redis_keys r p of
                    Inl e \<Rightarrow> (0, cm)
                  | Inr ks \<Rightarrow>
                      if ks = [] then (0, cm)
                      else (case redis_delete r ks of
                              Inl e \<Rightarrow> (0, cm)
                            | Inr (d, r') \<Rightarrow> (d, cm\<lparr>redis := Some r'\<rparr>))));
          memory_keys = filter (\<lambda>k. startswith k p) (map fst (memory_cache cm1))
      in (n + length memory_keys,
          cm1\<lparr>memory_cache := filter (\<lambda>(k, v). \<not> startswith k p) (memory_cache cm1)\<rparr>))"

text \<open>
  What can happen to a cache manager between two reads: time passes, the remote store
  goes away or comes back, and the operations above are called.
\<close>

datatype 'v cache_event =
    Elapse nat
  | Outage
  | Recovery
  | Get string string
  | Set string string 'v "int option"
  | SetPermanent string string 'v
  | Delete string string
  | ClearNamespace string

definition map_redis :: "(redis_client \<Rightarrow> redis_client) \<Rightarrow> 'v cache_manager \<Rightarrow> 'v cache_manager" where
  "map_redis f cm = cm\<lparr>redis := map_option f (redis cm)\<rparr>"

fun cache_step :: "'v codec \<Rightarrow> 'v cache_manager \<Rightarrow> 'v cache_event \<Rightarrow> 'v cache_manager" where
  "cache_step cd cm (Elapse n) = map_redis (\<lambda>r. r\<lparr>rclock := rclock r + n\<rparr>) cm"
| "cache_step cd cm Outage = map_redis (\<lambda>r. r\<lparr>reachable := False\<rparr>) cm"
| "cache_step cd cm Recovery = map_redis (\<lambda>r. r\<lparr>reachable := True\<rparr>) cm"
| "cache_step cd cm (Get ns k) = snd (get cd cm ns k)"
| "cache_step cd cm (Set ns k v ttl) = snd (set_temp cd cm ns k v ttl)"
| "cache_step cd cm (SetPermanent ns k v) = snd (set_permanent cd cm ns k v)"
| "cache_step cd cm (Delete ns k) = snd (delete cm ns k)"
| "cache_step cd cm (ClearNamespace ns) = snd (clear_namespace cm ns)"

definition run_events :: "'v codec \<Rightarrow> 'v cache_manager \<Rightarrow> 'v cache_event list \<Rightarrow> 'v cache_manager" where
  "run_events cd cm evs = foldl (cache_step cd) cm evs"


text \<open>
  The events that write or delete under a given cache key: the writes and deletes whose
  namespace and key compose to it, and the clearing of a namespace whose prefix it has.
\<close>

fun touches :: "string \<Rightarrow> 'v cache_event \<Rightarrow> bool" where
  "touches cache_key (Set ns k v ttl) = (make_key ns k = cache_key)"
| "touches cache_key (SetPermanent ns k v) = (make_key ns k = cache_key)"
| "touches cache_key (Delete ns k) = (make_key ns k = cache_key)"
| "touches cache_key (ClearNamespace ns) = startswith cache_key (ns @ '':'')"
| "touches cache_key _ = False"

text \<open>The remote store is absent, or there and reachable.\<close>

definition remote_accepts :: "'v cache_manager \<Rightarrow> bool" where
  "remote_accepts cm = (case redis cm of None \<Rightarrow> True | Some r \<Rightarrow> reachable r)"

text \<open>
  The remote store does not contradict a value under a cache key: there is no remote
  store, or it has nothing under that key, or what it has there is an empty text, a text
  that does not decode, a text that decodes to that value, or an entry whose lifetime is
  over.
\<close>

definition remote_agrees :: "'v codec \<Rightarrow> 'v cache_manager \<Rightarrow> string \<Rightarrow> 'v \<Rightarrow> bool" where
  "remote_agrees cd cm cache_key v =
     (case redis cm of
        None \<Rightarrow> True
      | Some r \<Rightarrow>
          (case map_of (rstore r) cache_key of
             None \<Rightarrow> True
           | Some (s, deadline) \<Rightarrow>
               s = [] \<or> loads cd s = None \<or> loads cd s = Some v \<or>
               (case deadline of None \<Rightarrow> False | Some d \<Rightarrow> d \<le> rclock r)))"

text \<open>
  A value is held under a cache key: the process-local dictionary has it there, and the
  remote store does not contradict it.
\<close>

definition held :: "'v codec \<Rightarrow> 'v cache_manager \<Rightarrow> string \<Rightarrow> 'v \<Rightarrow> bool" where
  "held cd cm cache_key v =
     (map_of (memory_cache cm) cache_key = Some v \<and> remote_agrees cd cm cache_key v)"

text \<open>A codec for values that are their own serialisation.\<close>

definition text_codec :: "string codec" where
  "text_codec = \<lparr>dumps = Some, loads = Some\<rparr>"

text \<open>A cache manager over an empty, reachable remote store, with the default lifetime.\<close>

definition fresh_cache_manager :: "string cache_manager" where
  "fresh_cache_manager =
     init_cache_manager (Some \<lparr>rstore = [], rclock = 0, reachable = True\<rparr>) 86400"


section \<open>Core types (core/types.py)\<close>

record search_result =
  doc_id :: string
  score :: real
  source :: string
  metadata :: pydict
  content :: pyval

text \<open>
  What the prefilter can be asked to match.  The analyser puts field conditions and
  whole nested filters into \<^verbatim>\<open>qdrant_filters\<close>.
\<close>

datatype match_cond =
    MatchValue pyval
  | MatchAny "string list"
  | MatchText pyval

record field_condition =
  fc_key :: string
  fc_match :: "match_cond option"

datatype qfilter = Filter (should: "filter_item list") (must: "filter_item list")
  and filter_item = FieldCond field_condition | NestedFilter qfilter

text \<open>
  The fields of \<^verbatim>\<open>QueryAnalysis\<close> that the search components read
  (\<open>query_keywords\<close> is the field \<^verbatim>\<open>keywords\<close>).
\<close>

record query_analysis =
  original_query :: string
  language :: string
  semantic_query :: string
  query_keywords :: "string list"
  qdrant_filters :: "filter_item list"
  filter_strategy :: string
  dense_query :: string


section \<open>Rank fusion (search/rrf.py)\<close>

text \<open>
  The engine keeps the constant \<open>k\<close> it was constructed with, as the value it was given.
\<close>

record rrf_fusion_engine =
  engine_k :: pyval

definition init_rrf_fusion_engine :: "pyval option \<Rightarrow> rrf_fusion_engine" where
  "init_rrf_fusion_engine k = \<lparr>engine_k = (case k of None \<Rightarrow> PInt 3 | Some v \<Rightarrow> v)\<rparr>"

text \<open>
  The input of a fusion: a dictionary from source names to ranked lists.  The entry
  \<^verbatim>\<open>'prefilter_info'\<close> holds the prefilter's record instead of a list; the fusion
  looks at its key only, never at its value, so the value is not represented.
\<close>

type_synonym results_dict = "(string \<times> search_result list) list"

record score_data =
  total_score :: real
  source_scores :: "(string \<times> real) list"
  rank_info :: "(string \<times> nat) list"
  result :: search_result
  boost_factor :: "real option"

type_synonym doc_scores = "(string \<times> score_data) list"

definition should_use_clean_fusion :: "results_dict \<Rightarrow> bool" where
  "should_use_clean_fusion results_dict =
     (let focused_sources =
            filter (\<lambda>(src, rs). src \<in> set [''bm25_focused'', ''dense_focused''] \<and> rs \<noteq> [])
              results_dict;
          has_prefilter_info = (''prefilter_info'' \<in> fst ` set results_dict);
          has_main_results =
            list_ex (\<lambda>src. case map_of results_dict src of None \<Rightarrow> False | Some rs \<Rightarrow> rs \<noteq> [])
              [''bm25'', ''bm25_focused'', ''dense'', ''dense_focused'']
      in (length focused_sources > 0 \<or> has_prefilter_info) \<and> has_main_results)"

definition base_weight :: "string \<Rightarrow> real" where
  "base_weight src =
     (if src = ''bm25'' then 0.4
      else if src = ''bm25_focused'' then 0.45
      else if src = ''dense'' then 0.5
      else if src = ''dense_focused'' then 0.55
      else if src = ''metadata'' then 0.1
      else 0.3)"

definition calculate_focused_weights :: "results_dict \<Rightarrow> (string \<times> real) list" where
  "calculate_focused_weights results_dict =
     (let available_sources = filter (\<lambda>src. src \<noteq> ''prefilter_info'') (map fst results_dict);
          final_weights = map (\<lambda>src. (src, base_weight src)) available_sources;
          total_weight = sum_list (map snd final_weights)
      in if total_weight > 0 then map (\<lambda>(src, w). (src, w / total_weight)) final_weights
         else final_weights)"

fun max_list :: "real list \<Rightarrow> real" where
  "max_list [] = 0"
| "max_list (x # xs) = fold max xs x"

fun min_list :: "real list \<Rightarrow> real" where
  "min_list [] = 0"
| "min_list (x # xs) = fold min xs x"

text \<open>
  \<^verbatim>\<open>_normalize_focused_scores\<close>, one source.  It is only called on a non-empty list,
  so the maxima are taken over non-empty lists.
\<close>

definition normalize_source :: "string \<Rightarrow> search_result list \<Rightarrow> search_result list" where
  "normalize_source src results =
     (if contains src ''bm25'' then
        (let max_bm25_score = max_list (map score results)
         in map (\<lambda>r. r\<lparr>score := (if score r > 0 then 0.2 + 0.8 * (score r / max_bm25_score) else 0)\<rparr>)
              results)
      else if contains src ''dense'' then
        (let scores = filter (\<lambda>x. x > 0) (map score results)
         in if scores \<noteq> [] then
              (let max_score = max_list scores; min_score = min_list scores
               in if max_score > min_score
                  then map (\<lambda>r. r\<lparr>score := (if score r > 0
                                              then 0.3 + 0.7 * ((score r - min_score) / (max_score - min_score))
                                              else 0)\<rparr>) results
                  else map (\<lambda>r. r\<lparr>score := (if score r > 0 then 0.8 else 0)\<rparr>) results)
            else results)
      else
        (let scores = filter (\<lambda>x. x > 0) (map score results)
         in if scores \<noteq> [] then
              (let max_score = max_list scores
               in map (\<lambda>r. r\<lparr>score := (if score r > 0 \<and> max_score > 0
                                           then 0.1 + 0.9 * (score r / max_score) else 0)\<rparr>) results)
            else results))"

definition normalize_focused_scores :: "results_dict \<Rightarrow> results_dict" where
  "normalize_focused_scores results_dict =
     map (\<lambda>(src, results).
            if src = ''prefilter_info'' \<or> results = [] then (src, results)
            else (src, normalize_source src results))
       results_dict"

text \<open>
  \<^verbatim>\<open>_calculate_focused_rrf_scores\<close>.  First the score one entry of one ranking
  contributes (lines 247-255), for a numeric \<open>k\<close>.
\<close>

definition rrf_contribution :: "real \<Rightarrow> real \<Rightarrow> real \<Rightarrow> nat \<Rightarrow> real" where
  "rrf_contribution kr weight s rank =
     (let base_rrf = 1 / (kr + real rank);
          final_score = weight * base_rrf * s * 10
      in if rank = 1 then final_score * 3
         else if rank = 2 then final_score * 2
         else if rank = 3 then final_score * 1.5
         else final_score)"

text \<open>Lines 257-267: the bookkeeping for one entry.\<close>

definition add_contribution ::
  "string \<Rightarrow> nat \<Rightarrow> search_result \<Rightarrow> real \<Rightarrow> doc_scores \<Rightarrow> doc_scores" where
  "add_contribution src rank r final_score ds =
     (let sd = (case map_of ds (doc_id r) of
                  None \<Rightarrow> \<lparr>total_score = 0, source_scores = [], rank_info = [], result = r,
                            boost_factor = None\<rparr>
                | Some sd \<Rightarrow> sd)
      in AList.update (doc_id r)
           (sd\<lparr>total_score := total_score sd + final_score,
               source_scores := AList.update src final_score (source_scores sd),
               rank_info := AList.update src rank (rank_info sd)\<rparr>)
           ds)"

text \<open>
  The inner loop over one ranking, \<open>rank\<close> being the rank of the head of the list.  A
  \<open>k\<close> that is no number raises \<^verbatim>\<open>TypeError\<close> at the first entry, a zero denominator
  \<^verbatim>\<open>ZeroDivisionError\<close>.
\<close>

fun rrf_source ::
  "pyval \<Rightarrow> string \<Rightarrow> real \<Rightarrow> nat \<Rightarrow> search_result list \<Rightarrow> doc_scores \<Rightarrow> exn + doc_scores" where
  "rrf_source kv src weight rank [] ds = Inr ds"
| "rrf_source kv src weight rank (r # rs) ds =
     (case py_num kv of
        None \<Rightarrow> Inl TypeError
      | Some kr \<Rightarrow>
          if kr + real rank = 0 then Inl ZeroDivisionError
          else rrf_source kv src weight (Suc rank) rs
                 (add_contribution src rank r (rrf_contribution kr weight (score r) rank) ds))"

text \<open>\<^verbatim>\<open>weights.get(source, 0.5)\<close>.\<close>

definition weight_of :: "(string \<times> real) list \<Rightarrow> string \<Rightarrow> real" where
  "weight_of weights src = (case map_of weights src of None \<Rightarrow> 0.5 | Some w \<Rightarrow> w)"

fun rrf_sources ::
  "pyval \<Rightarrow> (string \<times> real) list \<Rightarrow> results_dict \<Rightarrow> doc_scores \<Rightarrow> exn + doc_scores" where
  "rrf_sources kv weights [] ds = Inr ds"
| "rrf_sources kv weights ((src, results) # rest) ds =
     (if src = ''prefilter_info'' \<or> results = [] then rrf_sources kv weights rest ds
      else and_then (rrf_source kv src (weight_of weights src) 1 results ds)
             (rrf_sources kv weights rest))"

definition calculate_focused_rrf_scores ::
  "rrf_fusion_engine \<Rightarrow> results_dict \<Rightarrow> (string \<times> real) list \<Rightarrow> exn + doc_scores" where
  "calculate_focused_rrf_scores engine normalized_results weights =
     rrf_sources (engine_k engine) weights normalized_results []"

text \<open>\<^verbatim>\<open>_apply_focused_contextual_boosts\<close>: the factor of one document, then all of them.\<close>

definition focused_boost_factor :: "string \<Rightarrow> score_data \<Rightarrow> real" where
  "focused_boost_factor query_language sd =
     (let md = metadata (result sd);
          b1 = (if dict_get md ''language'' = PStr (upper query_language) then 1.2 else 1);
          source_count = length (source_scores sd);
          b2 = (if source_count \<ge> 2 then b1 * (1 + 0.3 * (real source_count - 1)) else b1);
          top_ranks = length (filter (\<lambda>(src, rank). rank \<le> 3) (rank_info sd));
          b3 = (if top_ranks \<ge> 2 then b2 * 1.5 else b2);
          b4 = (if truthy (dict_get_default md ''is_fully_enriched'' (PBool False)) then b3 * 1.1 else b3);
          first_place_count = length (filter (\<lambda>(src, rank). rank = 1) (rank_info sd));
          b5 = (if first_place_count \<ge> 1 then b4 * 1.8 else b4)
      in b5)"

definition apply_focused_contextual_boosts :: "doc_scores \<Rightarrow> query_analysis \<Rightarrow> doc_scores" where
  "apply_focused_contextual_boosts ds qa =
     map (\<lambda>(d, sd).
            (d, sd\<lparr>total_score := total_score sd * focused_boost_factor (language qa) sd,
                   boost_factor := Some (focused_boost_factor (language qa) sd)\<rparr>))
       ds"

text \<open>
  \<^verbatim>\<open>_assemble_final_results\<close>: a stable sort by decreasing total score, the first
  \<open>top_k\<close> entries, each with a \<^verbatim>\<open>fusion_info\<close> entry in its metadata.
\<close>

definition fusion_info :: "score_data \<Rightarrow> string \<Rightarrow> pyval" where
  "fusion_info sd fusion_type =
     PDict [(''source_scores'', PDict (map (\<lambda>(src, x). (src, PFloat x)) (source_scores sd))),
            (''boost_factor'', PFloat (case boost_factor sd of None \<Rightarrow> 1 | Some b \<Rightarrow> b)),
            (''sources_used'', PList (map (\<lambda>(src, x). PStr src) (source_scores sd))),
            (''fusion_type'', PStr fusion_type),
            (''rank_info'', PDict (map (\<lambda>(src, n). (src, PInt (int n))) (rank_info sd)))]"

definition assemble_final_results :: "doc_scores \<Rightarrow> nat \<Rightarrow> string \<Rightarrow> search_result list" where
  "assemble_final_results ds top_k fusion_type =
     map (\<lambda>(d, sd).
            (result sd)\<lparr>score := total_score sd,
                        metadata := dict_set ''fusion_info'' (fusion_info sd fusion_type)
                                      (metadata (result sd))\<rparr>)
       (take top_k (sort_key (\<lambda>(d, sd). - total_score sd) ds))"

definition clean_fusion_pipeline ::
  "rrf_fusion_engine \<Rightarrow> results_dict \<Rightarrow> query_analysis \<Rightarrow> nat \<Rightarrow> exn + search_result list" where
  "clean_fusion_pipeline engine results_dict qa top_k =
     (let weights = calculate_focused_weights results_dict;
          normalized_results = normalize_focused_scores results_dict
      in and_then (calculate_focused_rrf_scores engine normalized_results weights) (\<lambda>ds.
           Inr (assemble_final_results (apply_focused_contextual_boosts ds qa) top_k ''clean'')))"


text \<open>
  The fusion rule in the words of the specification, to compare the code with: every
  entry of every ranking, with its source and its rank counted from one; what the entry
  is to contribute for a constant \<open>kr\<close>; and the total a document has in a score table
  (nothing when it is not in the table).
\<close>

fun ranked_from :: "nat \<Rightarrow> 'a list \<Rightarrow> (nat \<times> 'a) list" where
  "ranked_from n [] = []"
| "ranked_from n (x # xs) = (n, x) # ranked_from (Suc n) xs"

definition fusion_entries :: "results_dict \<Rightarrow> (string \<times> nat \<times> search_result) list" where
  "fusion_entries normalized_results =
     concat (map (\<lambda>(src, rs). if src = ''prefilter_info'' then []
                               else map (\<lambda>(rank, r). (src, rank, r)) (ranked_from 1 rs))
               normalized_results)"

definition position_amplification :: "nat \<Rightarrow> real" where
  "position_amplification rank =
     (if rank = 1 then 3 else if rank = 2 then 2 else if rank = 3 then 1.5 else 1)"

definition specified_contribution :: "real \<Rightarrow> real \<Rightarrow> real \<Rightarrow> nat \<Rightarrow> real" where
  "specified_contribution kr weight s rank =
     weight * 10 * s / (kr + real rank) * position_amplification rank"

definition doc_total :: "doc_scores \<Rightarrow> string \<Rightarrow> real" where
  "doc_total ds d = (case map_of ds d of None \<Rightarrow> 0 | Some sd \<Rightarrow> total_score sd)"

text \<open>
  The sum of what the entries of a document are to contribute: in one ranking, and in all
  of them.
\<close>

definition entry_sum :: "real \<Rightarrow> real \<Rightarrow> string \<Rightarrow> (nat \<times> search_result) list \<Rightarrow> real" where
  "entry_sum kr weight d es =
     sum_list (map (\<lambda>(rank, r). specified_contribution kr weight (score r) rank)
                 (filter (\<lambda>(rank, r). doc_id r = d) es))"

definition specified_total ::
  "real \<Rightarrow> (string \<times> real) list \<Rightarrow> results_dict \<Rightarrow> string \<Rightarrow> real" where
  "specified_total kr weights normalized_results d =
     sum_list (map (\<lambda>(src, rank, r). specified_contribution kr (weight_of weights src) (score r) rank)
                 (filter (\<lambda>(src, rank, r). doc_id r = d) (fusion_entries normalized_results)))"


text \<open>
  Dominance, in the words of the specification.  The place of a document in a ranking is
  its first entry there, with the rank counted from one.  A document \<open>a\<close> dominates \<open>b\<close>
  in a ranking when \<open>b\<close> is not in it, or \<open>a\<close> is in it too with a smaller rank and a
  higher score; it dominates \<open>b\<close> when it does so in every ranking.
\<close>

definition occurrence :: "string \<Rightarrow> search_result list \<Rightarrow> (nat \<times> search_result) option" where
  "occurrence d rs = find (\<lambda>(rank, r). doc_id r = d) (ranked_from 1 rs)"

definition dominates_in :: "string \<Rightarrow> string \<Rightarrow> search_result list \<Rightarrow> bool" where
  "dominates_in a b rs =
     (case occurrence b rs of
        None \<Rightarrow> True
      | Some (rb, xb) \<Rightarrow>
          (case occurrence a rs of
             None \<Rightarrow> False
           | Some (ra, xa) \<Rightarrow> ra < rb \<and> score xb < score xa))"

definition dominates :: "string \<Rightarrow> string \<Rightarrow> results_dict \<Rightarrow> bool" where
  "dominates a b normalized_results =
     list_all (\<lambda>(src, rs). src = ''prefilter_info'' \<or> dominates_in a b rs) normalized_results"

definition appears :: "string \<Rightarrow> results_dict \<Rightarrow> bool" where
  "appears d normalized_results =
     list_ex (\<lambda>(src, rs). src \<noteq> ''prefilter_info'' \<and> occurrence d rs \<noteq> None) normalized_results"

text \<open>
  Rankings as the search engines produce them: one entry per source name, no document
  twice in a ranking, no negative normalized score.
\<close>

definition clean_rankings :: "results_dict \<Rightarrow> bool" where
  "clean_rankings normalized_results =
     (distinct (map fst normalized_results) \<and>
      list_all (\<lambda>(src, rs). distinct (map doc_id rs) \<and> list_all (\<lambda>r. 0 \<le> score r) rs)
        normalized_results)"

text \<open>
  The part of the boost that comes from the metadata of the result kept for a document
  (the language match and the full-enrichment flag); 1 for a document not in the table.
\<close>

definition metadata_boost :: "string \<Rightarrow> search_result \<Rightarrow> real" where
  "metadata_boost query_language r =
     (if dict_get (metadata r) ''language'' = PStr (upper query_language) then 1.2 else 1) *
     (if truthy (dict_get_default (metadata r) ''is_fully_enriched'' (PBool False)) then 1.1 else 1)"

definition stored_metadata_boost :: "string \<Rightarrow> doc_scores \<Rightarrow> string \<Rightarrow> real" where
  "stored_metadata_boost query_language ds d =
     (case map_of ds d of None \<Rightarrow> 1 | Some sd \<Rightarrow> metadata_boost query_language (result sd))"

text \<open>What one source is to contribute to a document.\<close>

definition source_contribution ::
  "real \<Rightarrow> (string \<times> real) list \<Rightarrow> string \<Rightarrow> string \<times> search_result list \<Rightarrow> real" where
  "source_contribution kr weights d entry =
     (case entry of (src, rs) \<Rightarrow>
        if src = ''prefilter_info'' then 0
        else entry_sum kr (weight_of weights src) d (ranked_from 1 rs))"


text \<open>
  The ranks recorded for a document in a score table, and the bookkeeping the table
  keeps: the recorded sources are distinct, and the same for scores and ranks.
\<close>

definition ranks_of :: "doc_scores \<Rightarrow> string \<Rightarrow> (string \<times> nat) list" where
  "ranks_of ds d = (case map_of ds d of None \<Rightarrow> [] | Some sd \<Rightarrow> rank_info sd)"

definition sd_ok :: "score_data \<Rightarrow> bool" where
  "sd_ok sd =
     (distinct (map fst (rank_info sd)) \<and> map fst (source_scores sd) = map fst (rank_info sd))"

definition ds_ok :: "doc_scores \<Rightarrow> bool" where
  "ds_ok ds = list_all (\<lambda>(d, sd). sd_ok sd) ds"

text \<open>The part of the boost that comes from the counts of sources and of top ranks.\<close>

definition count_boost :: "nat \<Rightarrow> nat \<Rightarrow> nat \<Rightarrow> real" where
  "count_boost source_count top_ranks first_place_count =
     (if source_count \<ge> 2 then 1 + 0.3 * (real source_count - 1) else 1) *
     (if top_ranks \<ge> 2 then 1.5 else 1) *
     (if first_place_count \<ge> 1 then 1.8 else 1)"


section \<open>The orchestrator's fusion engine (search/HybridSearchEngine.py)\<close>

text \<open>
  The constructor: \<^verbatim>\<open>self.config = config or {}\<close> and
  \<^verbatim>\<open>RRFFusionEngine(k=self.config.get('rrf_k', 60))\<close>.
\<close>

definition hybrid_config :: "pydict option \<Rightarrow> pydict" where
  "hybrid_config config = (case config of None \<Rightarrow> [] | Some c \<Rightarrow> c)"

definition hybrid_rrf_engine :: "pydict option \<Rightarrow> rrf_fusion_engine" where
  "hybrid_rrf_engine config =
     init_rrf_fusion_engine (Some (dict_get_default (hybrid_config config) ''rrf_k'' (PInt 60)))"

text \<open>
  The fusion step of \<^verbatim>\<open>_focused_search\<close> (lines 159-169): the two rankings and the
  prefilter entry, in this order.
\<close>

definition results_to_fuse :: "search_result list \<Rightarrow> search_result list \<Rightarrow> results_dict" where
  "results_to_fuse bm25_results dense_results =
     [(''bm25_focused'', bm25_results), (''dense_focused'', dense_results), (''prefilter_info'', [])]"


section \<open>Candidate prefilter (search/PreFilterEngine.py)\<close>

text \<open>
  The result dictionary of the prefilter.  The keys \<^verbatim>\<open>filter_details\<close> and
  \<^verbatim>\<open>original_count\<close> are absent from the error record, the key \<^verbatim>\<open>error\<close> from
  the others.
\<close>

record prefilter_result =
  candidates :: "string list"
  count :: nat
  strategy_used :: string
  filters_applied :: nat
  search_time :: real
  filter_details :: "pydict option"
  fallback_used :: bool
  original_count :: "nat option"
  case_insensitive :: bool
  error :: "string option"

text \<open>
  What the engine needs from outside, over a state \<open>'w\<close> of the outside world: the
  vector search of the Qdrant client, given the query text (its embedding, or the random
  vector \<^verbatim>\<open>_get_search_vector\<close> falls back to, is part of that step and never
  raises), the filter and the limit, returning the ids of the points found or raising;
  the clock; Python's \<^verbatim>\<open>hash\<close> of the key tuple and \<^verbatim>\<open>str\<close> of a filter object.
\<close>

record 'w search_env =
  client_search :: "string \<Rightarrow> qfilter option \<Rightarrow> nat \<Rightarrow> 'w \<Rightarrow> (exn + string list) \<times> 'w"
  clock :: "'w \<Rightarrow> real"
  py_hash :: "string \<times> string \<times> nat \<times> string list \<Rightarrow> int"
  filter_str :: "filter_item \<Rightarrow> string"

text \<open>
  The engine's own state.  The cache is keyed by the hash; the source keys it by the
  decimal text of the hash, which is in one-to-one correspondence with it.
\<close>

record prefilter_engine =
  candidates_cache :: "(int \<times> prefilter_result) list"
  pf_cache_hits :: nat
  pf_total_requests :: nat

text \<open>
  \<^verbatim>\<open>_create_case_insensitive_variants\<close>; the order of \<^verbatim>\<open>list(set(variants))\<close> is
  not specified by Python, one order is chosen here.  A text that is not a string has no
  \<^verbatim>\<open>lower\<close>.
\<close>

definition create_case_insensitive_variants :: "pyval \<Rightarrow> exn + string list" where
  "create_case_insensitive_variants text' =
     (if \<not> truthy text' then Inr []
      else case text' of
             PStr t \<Rightarrow> Inr (remdups [lower t, title t, upper t])
           | _ \<Rightarrow> Inl AttributeError)"

text \<open>
  The first loop of \<^verbatim>\<open>_create_adaptive_filter\<close>: text conditions become
  \<^verbatim>\<open>MatchAny\<close> conditions over the case variants, everything else is a "boolean"
  filter.
\<close>

fun split_filters :: "filter_item list \<Rightarrow> exn + filter_item list \<times> filter_item list" where
  "split_filters [] = Inr ([], [])"
| "split_filters (FieldCond fc # rest) =
     (case fc_match fc of
        Some (MatchText t) \<Rightarrow>
          and_then (create_case_insensitive_variants t) (\<lambda>text_variants.
          and_then (split_filters rest) (\<lambda>(text_filters, boolean_filters).
            Inr (FieldCond \<lparr>fc_key = fc_key fc, fc_match = Some (MatchAny text_variants)\<rparr>
                   # text_filters,
                 boolean_filters)))
      | _ \<Rightarrow>
          and_then (split_filters rest) (\<lambda>(text_filters, boolean_filters).
            Inr (text_filters, FieldCond fc # boolean_filters)))"
| "split_filters (NestedFilter f # rest) =
     and_then (split_filters rest) (\<lambda>(text_filters, boolean_filters).
       Inr (text_filters, NestedFilter f # boolean_filters))"

text \<open>\<^verbatim>\<open>hasattr(f, 'key') and f.key in priority_keys\<close>.\<close>

fun has_key_in :: "string list \<Rightarrow> filter_item \<Rightarrow> bool" where
  "has_key_in priority_keys (FieldCond fc) = (fc_key fc \<in> set priority_keys)"
| "has_key_in priority_keys (NestedFilter f) = False"

definition create_adaptive_filter :: "query_analysis \<Rightarrow> exn + qfilter option" where
  "create_adaptive_filter qa =
     (if qdrant_filters qa = [] then Inr None
      else and_then (split_filters (qdrant_filters qa)) (\<lambda>(text_filters, boolean_filters).
        let strategy = filter_strategy qa;
            selected_text_filters = text_filters;
            selected_boolean_filters =
              (if strategy = ''strict'' then boolean_filters
               else if strategy = ''moderate''
               then filter (has_key_in [''is_religious_site'', ''is_nature_tourism'',
                                         ''is_historical_site'', ''language'']) boolean_filters
               else filter (has_key_in [''is_religious_site'', ''language'']) boolean_filters)
        in if selected_text_filters \<noteq> [] \<and> selected_boolean_filters \<noteq> []
           then Inr (Some (Filter selected_text_filters selected_boolean_filters))
           else if selected_text_filters \<noteq> [] then Inr (Some (Filter selected_text_filters []))
           else if selected_boolean_filters \<noteq> [] then Inr (Some (Filter [] selected_boolean_filters))
           else Inr None))"

text \<open>\<^verbatim>\<open>_execute_candidate_search\<close>: the search; what it raises is raised again.\<close>

definition execute_candidate_search ::
  "'w search_env \<Rightarrow> query_analysis \<Rightarrow> qfilter option \<Rightarrow> nat \<Rightarrow> 'w \<Rightarrow> (exn + string list) \<times> 'w" where
  "execute_candidate_search env qa qdrant_filter max_candidates w =
     client_search env (semantic_query qa) qdrant_filter max_candidates w"

text \<open>\<^verbatim>\<open>_get_filter_summary\<close>; the text of a list of strings is written without escapes.\<close>

definition repr_str_list :: "string list \<Rightarrow> string" where
  "repr_str_list xs = ''['' @ join '', '' (map (\<lambda>x. [CHR 0x27] @ x @ [CHR 0x27]) xs) @ '']''"

fun filter_summary_entry :: "filter_item \<Rightarrow> pydict \<Rightarrow> pydict" where
  "filter_summary_entry (FieldCond fc) summary =
     (case fc_match fc of
        Some (MatchAny vs) \<Rightarrow> dict_set (fc_key fc) (PStr (''any('' @ repr_str_list vs @ '')'')) summary
      | Some (MatchValue v) \<Rightarrow> dict_set (fc_key fc) v summary
      | Some (MatchText t) \<Rightarrow> dict_set (fc_key fc) t summary
      | None \<Rightarrow> summary)"
| "filter_summary_entry (NestedFilter f) summary = summary"

definition get_filter_summary :: "query_analysis \<Rightarrow> pydict" where
  "get_filter_summary qa = fold filter_summary_entry (qdrant_filters qa) []"

definition create_cache_key :: "'w search_env \<Rightarrow> query_analysis \<Rightarrow> nat \<Rightarrow> int" where
  "create_cache_key env qa max_candidates =
     py_hash env (original_query qa, filter_strategy qa, max_candidates,
                  sort (map (filter_str env) (qdrant_filters qa)))"

text \<open>
  \<^verbatim>\<open>_apply_fallback_strategy\<close>, first the body of its \<^verbatim>\<open>try\<close> up to the
  \<^verbatim>\<open>return\<close> (lines 251-271): the retry with the strategy \<^verbatim>\<open>'loose'\<close> and, when
  that yields fewer than two candidates, the retry without a filter.  It gives the
  candidates, the name of the rung and the number of filters applied, or raises.
\<close>

definition fallback_body ::
  "'w search_env \<Rightarrow> query_analysis \<Rightarrow> nat \<Rightarrow> 'w \<Rightarrow> (exn + string list \<times> string \<times> nat) \<times> 'w" where
  "fallback_body env qa max_candidates w =
     (let fallback_analysis = qa\<lparr>filter_strategy := ''loose''\<rparr>
      in case create_adaptive_filter fallback_analysis of
           Inl e \<Rightarrow> (Inl e, w)
         | Inr fallback_filter \<Rightarrow>
             (case execute_candidate_search env fallback_analysis fallback_filter max_candidates w of
                (Inl e, w1) \<Rightarrow> (Inl e, w1)
              | (Inr cands, w1) \<Rightarrow>
                  if length cands < 2 then
                    (case execute_candidate_search env fallback_analysis None max_candidates w1 of
                       (Inl e, w2) \<Rightarrow> (Inl e, w2)
                     | (Inr cands', w2) \<Rightarrow> (Inr (cands', ''no_filters_fallback'', 0), w2))
                  else
                    (Inr (cands, ''loose_fallback'',
                          (case fallback_filter of
                             Some f \<Rightarrow> length (must f) + length (should f)
                           | None \<Rightarrow> 0)),
                     w1)))"

text \<open>
  The whole function: the record of lines 273-283 when the body returns, the original
  result (line 287) when it raises.
\<close>

definition apply_fallback_strategy ::
  "'w search_env \<Rightarrow> query_analysis \<Rightarrow> nat \<Rightarrow> prefilter_result \<Rightarrow> 'w \<Rightarrow> prefilter_result \<times> 'w" where
  "apply_fallback_strategy env qa max_candidates original_result w =
     (case fallback_body env qa max_candidates w of
        (Inl e, w') \<Rightarrow> (original_result, w')
      | (Inr (cands, final_strategy, filters_applied_count), w') \<Rightarrow>
          (\<lparr>candidates = cands, count = length cands,
            strategy_used = final_strategy, filters_applied = filters_applied_count,
            search_time = search_time original_result,
            filter_details = Some (get_filter_summary (qa\<lparr>filter_strategy := ''loose''\<rparr>)),
            fallback_used = True, original_count = Some (count original_result),
            case_insensitive = True, error = None\<rparr>, w'))"

text \<open>
  Lines 96-100 of \<^verbatim>\<open>get_filtered_candidates\<close>: the filter is built and the search
  run with it.
\<close>

definition first_attempt ::
  "'w search_env \<Rightarrow> query_analysis \<Rightarrow> nat \<Rightarrow> 'w \<Rightarrow> (exn + string list) \<times> 'w" where
  "first_attempt env qa max_candidates w =
     (case create_adaptive_filter qa of
        Inl e \<Rightarrow> (Inl e, w)
      | Inr qdrant_filter \<Rightarrow> execute_candidate_search env qa qdrant_filter max_candidates w)"

text \<open>The record of lines 102-112, built from the candidates of the first attempt.\<close>

definition first_result :: "query_analysis \<Rightarrow> string list \<Rightarrow> real \<Rightarrow> prefilter_result" where
  "first_result qa cands elapsed =
     \<lparr>candidates = cands, count = length cands,
      strategy_used = filter_strategy qa,
      filters_applied = length (qdrant_filters qa),
      search_time = elapsed,
      filter_details = Some (get_filter_summary qa),
      fallback_used = False, original_count = Some (length cands),
      case_insensitive = True, error = None\<rparr>"

text \<open>
  The body of the \<^verbatim>\<open>try\<close> of \<^verbatim>\<open>get_filtered_candidates\<close> (lines 96-123): it
  returns a result and the engine with the result cached, or raises.
\<close>

definition filtered_candidates_body ::
  "'w search_env \<Rightarrow> prefilter_engine \<Rightarrow> query_analysis \<Rightarrow> nat \<Rightarrow> real \<Rightarrow> int \<Rightarrow> 'w
     \<Rightarrow> (exn + prefilter_result \<times> prefilter_engine) \<times> 'w" where
  "filtered_candidates_body env eng qa max_candidates start_time cache_key w =
     (case first_attempt env qa max_candidates w of
        (Inl e, w1) \<Rightarrow> (Inl e, w1)
      | (Inr cands, w1) \<Rightarrow>
          (let result0 = first_result qa cands (clock env w1 - start_time);
               (result1, w2) =
                 (if length (candidates result0) = 0 \<and> filter_strategy qa \<noteq> ''loose''
                  then apply_fallback_strategy env qa max_candidates result0 w1
                  else (result0, w1))
           in (Inr (result1,
                    eng\<lparr>candidates_cache :=
                          AList.update cache_key result1 (candidates_cache eng)\<rparr>),
               w2)))"

text \<open>The record the handler of lines 125-136 builds.\<close>

definition error_result :: "exn \<Rightarrow> real \<Rightarrow> prefilter_result" where
  "error_result e elapsed =
     \<lparr>candidates = [], count = 0, strategy_used = ''error'', filters_applied = 0,
      search_time = elapsed, filter_details = None, fallback_used = False,
      original_count = None, case_insensitive = True, error = Some (exn_message e)\<rparr>"

definition get_filtered_candidates ::
  "'w search_env \<Rightarrow> prefilter_engine \<Rightarrow> query_analysis \<Rightarrow> nat \<Rightarrow> 'w
     \<Rightarrow> (exn + prefilter_result) \<times> prefilter_engine \<times> 'w" where
  "get_filtered_candidates env eng qa max_candidates w =
     (let start_time = clock env w;
          eng1 = eng\<lparr>pf_total_requests := pf_total_requests eng + 1\<rparr>;
          cache_key = create_cache_key env qa max_candidates
      in case map_of (candidates_cache eng1) cache_key of
           Some cached \<Rightarrow> (Inr cached, eng1\<lparr>pf_cache_hits := pf_cache_hits eng1 + 1\<rparr>, w)
         | None \<Rightarrow>
             (case filtered_candidates_body env eng1 qa max_candidates start_time cache_key w of
                (Inr (res, eng2), w') \<Rightarrow> (Inr res, eng2, w')
              | (Inl e, w') \<Rightarrow> (Inr (error_result e (clock env w' - start_time)), eng1, w')))"


section \<open>BM25 engine with result cache (search/bm25.py)\<close>

text \<open>A candidate document as retrieved from the store: its id (as text) and payload.\<close>

record candidate_doc =
  cand_id :: string
  payload :: pydict

record bm25_cache_entry =
  entry_results :: "search_result list"
  entry_timestamp :: real

record bm25_engine =
  bm25_k1 :: pyval
  bm25_b :: pyval
  results_cache :: "(string \<times> bm25_cache_entry) list"
  cache_hits :: nat
  cache_misses :: nat

definition cache_max_size :: nat where
  "cache_max_size = 500"

definition cache_ttl :: real where
  "cache_ttl = 3600"

definition init_bm25_engine :: "pydict option \<Rightarrow> bm25_engine" where
  "init_bm25_engine config_dict =
     (let config = (case config_dict of None \<Rightarrow> [] | Some c \<Rightarrow> c)
      in \<lparr>bm25_k1 = dict_get_default config ''bm25_k1'' (PFloat 1.2),
          bm25_b = dict_get_default config ''bm25_b'' (PFloat 0.75),
          results_cache = [], cache_hits = 0, cache_misses = 0\<rparr>)"

text \<open>
  The library functions the engine calls: the MD5 digest in hexadecimal, the two
  language-specific tokenisers (\<^verbatim>\<open>_tokenize_russian\<close> and \<^verbatim>\<open>_tokenize_english\<close>
  wrap a morphological analyser and a stemmer), the scores of \<^verbatim>\<open>BM25Okapi\<close> over a
  corpus for a query (\<open>None\<close> when it raises) and \<^verbatim>\<open>numpy.argsort\<close>.
\<close>

record bm25_lib =
  md5_hexdigest :: "string \<Rightarrow> string"
  tokenize_russian :: "string \<Rightarrow> string list"
  tokenize_english :: "string \<Rightarrow> string list"
  okapi_scores :: "string list list \<Rightarrow> pyval \<Rightarrow> pyval \<Rightarrow> string list \<Rightarrow> real list option"
  argsort :: "real list \<Rightarrow> nat list"

definition field_weights :: "(string \<times> nat) list" where
  "field_weights = [(''name'', 3), (''description'', 1), (''location'', 2), (''category'', 1)]"

fun str_items :: "pyval list \<Rightarrow> exn + string list" where
  "str_items [] = Inr []"
| "str_items (PStr x # xs) = and_then (str_items xs) (\<lambda>ys. Inr (x # ys))"
| "str_items (_ # xs) = Inl TypeError"

text \<open>
  \<^verbatim>\<open>_create_weighted_text\<close>; the weights are already truncated by \<^verbatim>\<open>int\<close>
  (\<open>1.5\<close> gives one copy).  Joining a part that is not a string raises.
\<close>

definition create_weighted_text :: "pydict \<Rightarrow> exn + string" where
  "create_weighted_text pl =
     and_then
       (str_items (concat (map (\<lambda>(field, weight).
                                  let c = dict_get_default pl field (PStr [])
                                  in if truthy c then replicate weight c else [])
                            field_weights)))
       (\<lambda>parts. Inr (join '' '' parts))"

definition tokenize_mixed :: "string \<Rightarrow> string list" where
  "tokenize_mixed text' = filter (\<lambda>word. length word > 2) (split (lower text'))"

definition tokenize :: "bm25_lib \<Rightarrow> string \<Rightarrow> string \<Rightarrow> string list" where
  "tokenize lib lang text' =
     (if lang = ''ru'' then tokenize_russian lib text'
      else if lang = ''en'' then tokenize_english lib text'
      else tokenize_mixed text')"

text \<open>\<^verbatim>\<open>_simple_keyword_match\<close>.\<close>

fun simple_matches :: "string list \<Rightarrow> candidate_doc list \<Rightarrow> exn + search_result list" where
  "simple_matches kws [] = Inr []"
| "simple_matches kws (doc # docs) =
     and_then (create_weighted_text (payload doc)) (\<lambda>t.
       let search_text = lower t;
           matches = length (filter (\<lambda>keyword. contains search_text (lower keyword)) kws)
       in and_then (simple_matches kws docs) (\<lambda>rest.
            if matches > 0
            then Inr (\<lparr>doc_id = cand_id doc,
                       score = (real matches / real (length kws)) * 10,
                       source = ''bm25_simple_match'',
                       metadata = payload doc,
                       content = dict_get_default (payload doc) ''description'' (PStr [])\<rparr> # rest)
            else Inr rest))"

definition simple_keyword_match ::
  "string list \<Rightarrow> candidate_doc list \<Rightarrow> nat \<Rightarrow> exn + search_result list" where
  "simple_keyword_match kws candidate_docs top_k =
     and_then (simple_matches kws candidate_docs) (\<lambda>rs.
       Inr (take top_k (sort_key (\<lambda>r. - score r) rs)))"

definition bm25_cache_key :: "bm25_lib \<Rightarrow> string \<Rightarrow> string" where
  "bm25_cache_key lib semantic_query' =
     (let normalized_query = strip (lower semantic_query');
          key_string = ''bm25:'' @ normalized_query
      in ''bm25:'' @ md5_hexdigest lib key_string)"

text \<open>\<^verbatim>\<open>_get_from_cache\<close> at time \<open>now\<close>: an entry older than the time-to-live is dropped.\<close>

definition get_from_cache ::
  "bm25_engine \<Rightarrow> string \<Rightarrow> real \<Rightarrow> search_result list option \<times> bm25_engine" where
  "get_from_cache eng cache_key now =
     (case map_of (results_cache eng) cache_key of
        None \<Rightarrow> (None, eng\<lparr>cache_misses := cache_misses eng + 1\<rparr>)
      | Some cached_data \<Rightarrow>
          if now - entry_timestamp cached_data > cache_ttl
          then (None, eng\<lparr>results_cache := AList.delete cache_key (results_cache eng),
                           cache_misses := cache_misses eng + 1\<rparr>)
          else (Some (entry_results cached_data), eng\<lparr>cache_hits := cache_hits eng + 1\<rparr>))"

text \<open>The key \<^verbatim>\<open>min\<close> picks: the first one with the least timestamp.\<close>

fun oldest_key :: "(string \<times> bm25_cache_entry) list \<Rightarrow> string option" where
  "oldest_key [] = None"
| "oldest_key ((k, e) # rest) =
     (case oldest_key rest of
        None \<Rightarrow> Some k
      | Some k' \<Rightarrow>
          (case map_of rest k' of
             None \<Rightarrow> Some k
           | Some e' \<Rightarrow> if entry_timestamp e \<le> entry_timestamp e' then Some k else Some k'))"

definition save_to_cache ::
  "bm25_engine \<Rightarrow> string \<Rightarrow> search_result list \<Rightarrow> real \<Rightarrow> bm25_engine" where
  "save_to_cache eng cache_key rs now =
     (let cache1 =
            (if length (results_cache eng) \<ge> cache_max_size
             then (case oldest_key (results_cache eng) of
                     None \<Rightarrow> results_cache eng
                   | Some k \<Rightarrow> AList.delete k (results_cache eng))
             else results_cache eng)
      in eng\<lparr>results_cache :=
               AList.update cache_key \<lparr>entry_results = rs, entry_timestamp = now\<rparr> cache1\<rparr>)"

text \<open>Lines 210-226: the corpus of the candidates that have tokens.\<close>

fun build_corpus ::
  "bm25_lib \<Rightarrow> string \<Rightarrow> candidate_doc list \<Rightarrow> exn + (string list \<times> candidate_doc) list" where
  "build_corpus lib lang [] = Inr []"
| "build_corpus lib lang (doc # docs) =
     and_then (create_weighted_text (payload doc)) (\<lambda>search_text.
       let tokens = tokenize lib lang search_text
       in and_then (build_corpus lib lang docs) (\<lambda>rest.
            if tokens \<noteq> [] then Inr ((tokens, doc) # rest) else Inr rest))"

text \<open>
  Lines 249-262: the results for the chosen indices; an index outside the corpus raises
  \<^verbatim>\<open>IndexError\<close>, reported here as \<open>None\<close>.
\<close>

fun scored_results ::
  "real list \<Rightarrow> candidate_doc list \<Rightarrow> real \<Rightarrow> nat list \<Rightarrow> search_result list option" where
  "scored_results scores doc_mapping threshold [] = Some []"
| "scored_results scores doc_mapping threshold (idx # idxs) =
     (if idx \<ge> length scores then None
      else if scores ! idx > threshold
      then (if idx \<ge> length doc_mapping then None
            else map_option
                   (\<lambda>rest. \<lparr>doc_id = cand_id (doc_mapping ! idx), score = scores ! idx,
                             source = ''bm25_focused'', metadata = payload (doc_mapping ! idx),
                             content = dict_get_default (payload (doc_mapping ! idx))
                                         ''description'' (PStr [])\<rparr> # rest)
                   (scored_results scores doc_mapping threshold idxs))
      else scored_results scores doc_mapping threshold idxs)"

text \<open>
  Lines 238-277, the \<^verbatim>\<open>try\<close> and its handler, for a corpus of more than five
  documents.  \<open>None\<close> inside stands for an exception caught by the handler, which falls
  back to the keyword match.
\<close>

definition bm25_scoring ::
  "bm25_lib \<Rightarrow> bm25_engine \<Rightarrow> real \<Rightarrow> string list \<Rightarrow> candidate_doc list \<Rightarrow> nat \<Rightarrow> string option
     \<Rightarrow> (string list \<times> candidate_doc) list \<Rightarrow> (exn + search_result list) \<times> bm25_engine" where
  "bm25_scoring lib eng now kws candidate_docs top_k cache_key corpus =
     (let temp_corpus = map fst corpus;
          doc_mapping = map snd corpus;
          attempt =
            (case okapi_scores lib temp_corpus (bm25_k1 eng) (bm25_b eng) kws of
               None \<Rightarrow> None
             | Some scores \<Rightarrow>
                 (let top_indices = take top_k (rev (argsort lib scores));
                      score_threshold = (if length temp_corpus \<le> 20 then - 0.5 else 0)
                  in case scored_results scores doc_mapping score_threshold top_indices of
                       None \<Rightarrow> None
                     | Some rs \<Rightarrow>
                         if rs = []
                         then (case simple_keyword_match kws candidate_docs top_k of
                                 Inl e \<Rightarrow> None
                               | Inr rs' \<Rightarrow> Some rs')
                         else Some rs))
      in case attempt of
           None \<Rightarrow> (simple_keyword_match kws candidate_docs top_k, eng)
         | Some rs \<Rightarrow>
             (Inr rs,
              (case cache_key of
                 Some ck \<Rightarrow> if rs \<noteq> [] then save_to_cache eng ck rs now else eng
               | None \<Rightarrow> eng)))"

text \<open>
  \<^verbatim>\<open>search_within_candidates\<close> at time \<open>now\<close>.  \<open>semantic_query'\<close> is \<open>None\<close> when the
  argument is left out.
\<close>

definition search_within_candidates ::
  "bm25_lib \<Rightarrow> bm25_engine \<Rightarrow> real \<Rightarrow> string list \<Rightarrow> candidate_doc list \<Rightarrow> string \<Rightarrow> nat
     \<Rightarrow> string option \<Rightarrow> (exn + search_result list) \<times> bm25_engine" where
  "search_within_candidates lib eng now kws candidate_docs lang top_k semantic_query' =
     (if candidate_docs = [] \<or> kws = [] then (Inr [], eng)
      else
        (let cache_key =
               (case semantic_query' of
                  None \<Rightarrow> None
                | Some q \<Rightarrow> if q = [] then None else Some (bm25_cache_key lib q));
             (cached_results, eng1) =
               (case cache_key of
                  None \<Rightarrow> (None, eng)
                | Some ck \<Rightarrow> get_from_cache eng ck now)
         in case cached_results of
              Some rs \<Rightarrow> (Inr rs, eng1)
            | None \<Rightarrow>
                (case build_corpus lib lang candidate_docs of
                   Inl e \<Rightarrow> (Inl e, eng1)
                 | Inr corpus \<Rightarrow>
                     if corpus = [] then (Inr [], eng1)
                     else if length corpus \<le> 5
                     then (simple_keyword_match kws candidate_docs top_k, eng1)
                     else bm25_scoring lib eng1 now kws candidate_docs top_k cache_key corpus)))"

text \<open>
  What the specification asks of a cache hit: the cached ranking restricted to the
  documents of the current candidate set.
\<close>

definition restrict_to_candidates ::
  "candidate_doc list \<Rightarrow> search_result list \<Rightarrow> search_result list" where
  "restrict_to_candidates candidate_docs rs =
     filter (\<lambda>r. doc_id r \<in> cand_id ` set candidate_docs) rs"


section \<open>Distinctive words of the language detector (multilingual/multilingual_manager.py)\<close>

text \<open>
  The vocabularies are written in many scripts, so a word is the sequence of its Unicode
  code points, as a Python \<^verbatim>\<open>str\<close> is.
\<close>

type_synonym ustring = "nat list"

text \<open>
  \<^verbatim>\<open>str.lower\<close>, code point by code point: the simple lower-case mapping of Unicode
  for the Basic Latin, Latin-1, Latin Extended-A, Greek, Cyrillic and Armenian blocks.
  Code points outside these blocks (Georgian Mkhedruli, Devanagari and the others used
  below have no case) and U+0130, whose lower case is two code points, are left as they
  are.
\<close>

definition lower_cp :: "nat \<Rightarrow> nat" where
  "lower_cp c =
     (if 65 \<le> c \<and> c \<le> 90 then c + 32
      else if 192 \<le> c \<and> c \<le> 222 \<and> c \<noteq> 215 then c + 32
      else if 256 \<le> c \<and> c \<le> 311 \<and> c \<noteq> 304 then (if even c then c + 1 else c)
      else if 313 \<le> c \<and> c \<le> 328 then (if odd c then c + 1 else c)
      else if 330 \<le> c \<and> c \<le> 375 then (if even c then c + 1 else c)
      else if c = 376 then 255
      else if 377 \<le> c \<and> c \<le> 382 then (if odd c then c + 1 else c)
      else if 913 \<le> c \<and> c \<le> 939 \<and> c \<noteq> 930 then c + 32
      else if 1024 \<le> c \<and> c \<le> 1039 then c + 80
      else if 1040 \<le> c \<and> c \<le> 1071 then c + 32
      else if 1329 \<le> c \<and> c \<le> 1366 then c + 48
      else c)"

definition ulower :: "ustring \<Rightarrow> ustring" where
  "ulower w = map lower_cp w"

text \<open>The table \<^verbatim>\<open>self.distinctive_words\<close> (lines 81-97), in the order of the source.\<close>

definition distinctive_words :: "(string \<times> ustring list) list" where
  "distinctive_words =
   [(''ka'',
     [[4320, 4304], [4320, 4317, 4306, 4317, 4320], [4321, 4304, 4307],
      [4320, 4317, 4307, 4312, 4321], [4320, 4304, 4322, 4317, 4315],
      [4315, 4312, 4311, 4334, 4304, 4320, 4312], [4304, 4329, 4309, 4308, 4316, 4308],
      [4304, 4334, 4321, 4308, 4316, 4312], [4325, 4304, 4320, 4311, 4323, 4314, 4312],
      [4306, 4311, 4334, 4317, 4309, 4311]]),
    (''hy'',
     [[1402, 1377, 1407, 1396, 1387, 1408], [1402, 1377, 1407, 1396, 1381, 1412],
      [1377, 1405, 1387, 1408], [1377, 1405, 1381, 1412], [1387, 1398, 1401, 1402, 1381, 1405],
      [1400, 1408, 1407, 1381, 1394], [1396, 1377, 1405, 1387, 1398],
      [1392, 1377, 1397, 1381, 1408, 1381, 1398], [1409, 1400, 1410, 1397, 1409],
      [1413, 1379, 1398, 1387, 1408]]),
    (''az'',
     [[100, 97, 110, 305, 351], [104, 97, 113, 113, 305, 110, 100, 97],
      [104, 97, 114, 97, 100, 97], [110, 101, 99, 601], [110, 105, 121, 601],
      [97, 122, 601, 114, 98, 97, 121, 99, 97, 110], [103, 246, 115, 116, 601, 114],
      [105, 122, 97, 104], [107, 246, 109, 601, 107], [103, 246, 122, 601, 108],
      [121, 101, 114, 108, 601, 114], [109, 105, 108, 108, 105]]),
    (''it'',
     [[112, 97, 114, 108, 97, 109, 105], [100, 105, 109, 109, 105],
      [114, 97, 99, 99, 111, 110, 116, 97, 109, 105], [112, 101, 114, 99, 104, 233],
      [99, 111, 115, 97], [100, 111, 118, 101], [113, 117, 97, 110, 100, 111],
      [100, 101, 108, 108, 97], [100, 101, 103, 108, 105],
      [105, 116, 97, 108, 105, 97, 110, 111]]),
    (''fr'',
     [[112, 97, 114, 108, 101, 122], [100, 105, 116, 101, 115],
      [114, 97, 99, 111, 110, 116, 101, 122], [112, 111, 117, 114, 113, 117, 111, 105],
      [233, 103, 108, 105, 115, 101], [99, 104, 226, 116, 101, 97, 117], [113, 117, 111, 105],
      [111, 249], [102, 114, 97, 110, 231, 97, 105, 115], [118, 111, 117, 108, 101, 122]]),
    (''de'',
     [[101, 114, 122, 228, 104, 108, 101, 110], [101, 114, 122, 228, 104, 108],
      [252, 98, 101, 114], [107, 246, 110, 110, 101, 110], [119, 252, 114, 100, 101],
      [109, 246, 99, 104, 116, 101],
      [115, 101, 104, 101, 110, 115, 119, 252, 114, 100, 105, 103, 107, 101, 105, 116, 101, 110],
      [100, 101, 117, 116, 115, 99, 104], [105, 104, 110, 101, 110],
      [119, 101, 108, 99, 104, 101]]),
    (''es'',
     [[99, 117, 233, 110, 116, 97, 109, 101], [104, 225, 98, 108, 97, 109, 101],
      [115, 111, 98, 114, 101], [100, 243, 110, 100, 101], [99, 117, 225, 110, 100, 111],
      [99, 243, 109, 111], [113, 117, 233], [101, 115, 112, 97, 241, 111, 108],
      [97, 121, 250, 100, 97, 109, 101], [109, 117, 233, 115, 116, 114, 97, 109, 101]]),
    (''nl'',
     [[118, 101, 114, 116, 101, 108], [118, 101, 114, 116, 101, 108, 108, 101, 110],
      [119, 97, 97, 114, 111, 109], [119, 97, 110, 110, 101, 101, 114],
      [119, 101, 108, 107, 101], [110, 101, 100, 101, 114, 108, 97, 110, 100, 115],
      [103, 114, 97, 97, 103], [97, 108, 115, 106, 101, 98, 108, 105, 101, 102, 116],
      [110, 97, 116, 117, 117, 114, 108, 105, 106, 107], [103, 101, 101, 102]]),
    (''pl'',
     [[111, 112, 111, 119, 105, 101, 100, 122], [112, 111, 119, 105, 101, 100, 122],
      [103, 100, 122, 105, 101], [107, 105, 101, 100, 121],
      [100, 108, 97, 99, 122, 101, 103, 111], [107, 116, 243, 114, 121],
      [112, 111, 108, 115, 107, 97], [112, 111, 108, 115, 107, 105],
      [112, 114, 111, 115, 122, 281], [100, 122, 105, 281, 107, 117, 106, 281]]),
    (''cs'',
     [[345, 101, 107, 110, 105], [345, 101, 107, 110, 283, 116, 101],
      [112, 111, 118, 283, 122], [112, 114, 111, 269], [107, 116, 101, 114, 253],
      [269, 101, 353, 116, 105, 110, 97], [112, 114, 111, 115, 237, 109],
      [100, 283, 107, 117, 106, 105], [110, 101, 110, 237], [106, 115, 116, 101]]),
    (''ru'',
     [[1088, 1072, 1089, 1089, 1082, 1072, 1078, 1080], [1087, 1086, 1082, 1072, 1078, 1080],
      [1086, 1073, 1098, 1103, 1089, 1085, 1080], [1087, 1086, 1084, 1086, 1075, 1080],
      [1082, 1086, 1090, 1086, 1088, 1099, 1081], [1088, 1091, 1089, 1089, 1082, 1080, 1081],
      [1087, 1086, 1078, 1072, 1083, 1091, 1081, 1089, 1090, 1072],
      [1089, 1087, 1072, 1089, 1080, 1073, 1086],
      [1079, 1076, 1088, 1072, 1074, 1089, 1090, 1074, 1091, 1081],
      [1093, 1086, 1088, 1086, 1096, 1086]]),
    (''tr'',
     [[97, 110, 108, 97, 116], [97, 110, 108, 97, 116, 305, 110], [115, 246, 121, 108, 101],
      [104, 97, 107, 107, 305, 110, 100, 97], [110, 101, 114, 101, 100, 101],
      [110, 101, 100, 101, 110], [110, 97, 115, 305, 108], [116, 252, 114, 107, 231, 101],
      [108, 252, 116, 102, 101, 110], [116, 101, 351, 101, 107, 107, 252, 114]]),
    (''hi'',
     [[2348, 2340, 2366, 2319, 2306], [2348, 2340, 2366, 2311, 2319],
      [2342, 2367, 2326, 2366, 2319, 2306], [2360, 2350, 2333, 2366, 2319, 2306],
      [2325, 2375, 32, 2348, 2366, 2352, 2375, 32, 2350, 2375, 2306], [2325, 2361, 2366, 2305],
      [2325, 2376, 2360, 2375], [2325, 2371, 2346, 2351, 2366],
      [2343, 2344, 2381, 2351, 2357, 2366, 2342], [2361, 2367, 2306, 2342, 2368]]),
    (''en'',
     [[116, 101, 108, 108], [115, 104, 111, 119], [101, 120, 112, 108, 97, 105, 110],
      [100, 101, 115, 99, 114, 105, 98, 101], [97, 98, 111, 117, 116],
      [119, 104, 101, 114, 101], [119, 104, 101, 110], [101, 110, 103, 108, 105, 115, 104],
      [112, 108, 101, 97, 115, 101], [116, 104, 97, 110, 107]])]"

text \<open>\<^verbatim>\<open>self.distinctive_words.get(lang_code, [])\<close>, as the detector reads the table.\<close>

definition words_of :: "string \<Rightarrow> ustring list" where
  "words_of lang_code = (case map_of distinctive_words lang_code of None \<Rightarrow> [] | Some ws \<Rightarrow> ws)"

text \<open>
  \<^verbatim>\<open>_verify_no_overlaps\<close>: the inner loop over the words of one language and the
  outer loop over the languages; the state is the dictionary \<^verbatim>\<open>all_words\<close> and the
  flag \<^verbatim>\<open>overlaps_found\<close>.
\<close>

fun verify_words ::
  "string \<Rightarrow> ustring list \<Rightarrow> (ustring \<times> string) list \<times> bool \<Rightarrow> (ustring \<times> string) list \<times> bool" where
  "verify_words lang [] st = st"
| "verify_words lang (word # ws) (all_words, overlaps_found) =
     (let word_lower = ulower word
      in if map_of all_words word_lower \<noteq> None
         then verify_words lang ws (all_words, True)
         else verify_words lang ws (AList.update word_lower lang all_words, overlaps_found))"

fun verify_langs ::
  "(string \<times> ustring list) list \<Rightarrow> (ustring \<times> string) list \<times> bool \<Rightarrow> (ustring \<times> string) list \<times> bool" where
  "verify_langs [] st = st"
| "verify_langs ((lang, ws) # rest) st = verify_langs rest (verify_words lang ws st)"

definition verify_no_overlaps :: "(string \<times> ustring list) list \<Rightarrow> bool" where
  "verify_no_overlaps table = (\<not> snd (verify_langs table ([], False)))"

text \<open>All words of a table, lower-cased, language after language.\<close>

definition lowered_words :: "(string \<times> ustring list) list \<Rightarrow> ustring list" where
  "lowered_words table = concat (map (\<lambda>(lang, ws). map ulower ws) table)"


section \<open>Assembling an enrichment and queueing its write-back (enrichment/web.py)\<close>

text \<open>\<^verbatim>\<open>asdict(WebEnrichmentResult())\<close>: the fields after \<^verbatim>\<open>__post_init__\<close>.\<close>

definition empty_enrichment :: pydict where
  "empty_enrichment =
     [(''wikipedia_content'', PStr []), (''wikipedia_images'', PList []),
      (''unsplash_images'', PList []), (''serpapi_results'', PList []),
      (''enrichment_sources'', PList []), (''cache_key'', PNone)]"

text \<open>
  The loop of lines 187-206 over the gathered task results, \<open>i\<close> being the index of the
  head.  A task that failed is an exception object in the list and is skipped; a
  Wikipedia result that is no dictionary raises.
\<close>

fun collect_results ::
  "bool \<Rightarrow> bool \<Rightarrow> nat \<Rightarrow> (exn + pyval) list \<Rightarrow> pydict \<times> pyval list \<Rightarrow> exn + pydict \<times> pyval list" where
  "collect_results needs_description needs_images i [] st = Inr st"
| "collect_results needs_description needs_images i (Inl e # rest) st =
     collect_results needs_description needs_images (Suc i) rest st"
| "collect_results needs_description needs_images i (Inr res # rest) (enrichment, sources) =
     (if i = 0 \<and> needs_description then
        and_then (py_get res ''content'' PNone) (\<lambda>c.
        and_then (py_get res ''images'' (PList [])) (\<lambda>imgs.
          collect_results needs_description needs_images (Suc i) rest
            (dict_set ''wikipedia_images'' imgs (dict_set ''wikipedia_content'' c enrichment),
             if truthy c then sources @ [PStr ''wikipedia''] else sources)))
      else if i = 1 \<and> needs_description then
        collect_results needs_description needs_images (Suc i) rest
          (dict_set ''serpapi_results'' res enrichment,
           if truthy res then sources @ [PStr ''serpapi''] else sources)
      else if needs_images then
        collect_results needs_description needs_images (Suc i) rest
          (dict_set ''unsplash_images'' res enrichment,
           if truthy res then sources @ [PStr ''unsplash''] else sources)
      else collect_results needs_description needs_images (Suc i) rest (enrichment, sources))"

definition assemble_enrichment ::
  "bool \<Rightarrow> bool \<Rightarrow> (exn + pyval) list \<Rightarrow> string \<Rightarrow> exn + pydict" where
  "assemble_enrichment needs_description needs_images task_results cache_key =
     and_then (collect_results needs_description needs_images 0 task_results (empty_enrichment, []))
       (\<lambda>(enrichment, sources).
          Inr (dict_set ''cache_key'' (PStr cache_key)
                 (dict_set ''enrichment_sources'' (PList sources) enrichment)))"

text \<open>
  Lines 208-223 as far as the vector store is concerned: when at least one source
  answered and there is a document id, the enrichment is handed to the persister, whose
  worker runs \<^verbatim>\<open>_persist_enrichment_sync\<close>.
\<close>

definition enrichment_write_back ::
  "string \<Rightarrow> qdrant_store \<Rightarrow> string \<Rightarrow> bool \<Rightarrow> bool \<Rightarrow> (exn + pyval) list \<Rightarrow> string \<Rightarrow> qdrant_store" where
  "enrichment_write_back now q document_id needs_description needs_images task_results cache_key =
     (case assemble_enrichment needs_description needs_images task_results cache_key of
        Inl e \<Rightarrow> q
      | Inr enrichment \<Rightarrow>
          if truthy (dict_get enrichment ''enrichment_sources'') \<and> document_id \<noteq> []
          then snd (persist_enrichment_sync now q document_id enrichment)
          else q)"

text \<open>The enrichment fields of a payload, and whether one of them is not empty.\<close>

definition has_enrichment_field :: "pydict \<Rightarrow> bool" where
  "has_enrichment_field pl =
     (truthy (dict_get pl ''description_enriched'') \<or>
      truthy (dict_get pl ''images_wikipedia'') \<or>
      truthy (dict_get pl ''images_unsplash''))"

section \<open>Example inputs\<close>

text \<open>
  A search environment that answers the \<open>i\<close>-th search with the \<open>i\<close>-th entry of a
  script (and finds nothing afterwards); its state is the number of searches made, which
  is also what its clock shows.
\<close>

definition scripted_env :: "(exn + string list) list \<Rightarrow> nat search_env" where
  "scripted_env script =
     \<lparr>client_search = (\<lambda>q f limit w. (if w < length script then script ! w else Inr [], Suc w)),
      clock = real,
      py_hash = (\<lambda>key. 0),
      filter_str = (\<lambda>f. [])\<rparr>"

definition new_prefilter_engine :: prefilter_engine where
  "new_prefilter_engine = \<lparr>candidates_cache = [], pf_cache_hits = 0, pf_total_requests = 0\<rparr>"

text \<open>A query for churches, as the analyser would hand it over with strategy \<open>moderate\<close>.\<close>

definition church_query :: query_analysis where
  "church_query =
     \<lparr>original_query = ''church in Mtskheta'', language = ''en'',
      semantic_query = ''church in Mtskheta'', query_keywords = [''church'', ''mtskheta''],
      qdrant_filters =
        [FieldCond \<lparr>fc_key = ''is_religious_site'', fc_match = Some (MatchValue (PBool True))\<rparr>,
         FieldCond \<lparr>fc_key = ''is_historical_site'', fc_match = Some (MatchValue (PBool True))\<rparr>],
      filter_strategy = ''moderate'',
      dense_query = ''church in Mtskheta information history description Georgia''\<rparr>"


text \<open>
  Two BM25 results for the same query, computed over a candidate set that held both
  documents, and a later candidate set that holds the second document only.
\<close>

definition svetitskhoveli_result :: search_result where
  "svetitskhoveli_result =
     \<lparr>doc_id = ''d1'', score = 7.5, source = ''bm25_focused'',
      metadata = [(''name'', PStr ''Svetitskhoveli Cathedral'')],
      content = PStr ''Cathedral in Mtskheta''\<rparr>"

definition jvari_result :: search_result where
  "jvari_result =
     \<lparr>doc_id = ''d2'', score = 6.25, source = ''bm25_focused'',
      metadata = [(''name'', PStr ''Jvari Monastery'')],
      content = PStr ''Monastery near Mtskheta''\<rparr>"

definition jvari_doc :: candidate_doc where
  "jvari_doc =
     \<lparr>cand_id = ''d2'',
      payload = [(''name'', PStr ''Jvari Monastery''),
                 (''description'', PStr ''Monastery near Mtskheta'')]\<rparr>"

text \<open>An engine whose cache holds the two results, stored at time 1000, for a query.\<close>

definition warm_bm25_engine :: "bm25_lib \<Rightarrow> string \<Rightarrow> bm25_engine" where
  "warm_bm25_engine lib q =
     (init_bm25_engine None)
       \<lparr>results_cache :=
          [(bm25_cache_key lib q,
            \<lparr>entry_results = [svetitskhoveli_result, jvari_result], entry_timestamp = 1000\<rparr>)]\<rparr>"


text \<open>
  A normalized BM25 ranking of five documents.  The fifth is in the language of the query
  and fully enriched, the others carry no such metadata.
\<close>

definition ranked_result :: "string \<Rightarrow> real \<Rightarrow> pydict \<Rightarrow> search_result" where
  "ranked_result d s md =
     \<lparr>doc_id = d, score = s, source = ''bm25_focused'', metadata = md, content = PStr []\<rparr>"

definition five_ranked :: results_dict where
  "five_ranked =
     [(''bm25_focused'',
       [ranked_result ''d1'' 1 [], ranked_result ''d2'' 0.9 [], ranked_result ''d3'' 0.8 [],
        ranked_result ''d4'' 0.5 [],
        ranked_result ''d5'' 0.49
          [(''language'', PStr ''EN''), (''is_fully_enriched'', PBool True)]])]"

text \<open>The score table of that ranking for \<open>k = 3\<close>, before the boosts.\<close>

definition five_scored :: doc_scores where
  "five_scored =
     [(''d1'', \<lparr>total_score = 15 / 2, source_scores = [(''bm25_focused'', 15 / 2)],
               rank_info = [(''bm25_focused'', 1)], result = ranked_result ''d1'' 1 [],
               boost_factor = None\<rparr>),
      (''d2'', \<lparr>total_score = 18 / 5, source_scores = [(''bm25_focused'', 18 / 5)],
               rank_info = [(''bm25_focused'', 2)], result = ranked_result ''d2'' 0.9 [],
               boost_factor = None\<rparr>),
      (''d3'', \<lparr>total_score = 2, source_scores = [(''bm25_focused'', 2)],
               rank_info = [(''bm25_focused'', 3)], result = ranked_result ''d3'' 0.8 [],
               boost_factor = None\<rparr>),
      (''d4'', \<lparr>total_score = 5 / 7, source_scores = [(''bm25_focused'', 5 / 7)],
               rank_info = [(''bm25_focused'', 4)], result = ranked_result ''d4'' 0.5 [],
               boost_factor = None\<rparr>),
      (''d5'', \<lparr>total_score = 49 / 80, source_scores = [(''bm25_focused'', 49 / 80)],
               rank_info = [(''bm25_focused'', 5)],
               result = ranked_result ''d5'' 0.49
                          [(''language'', PStr ''EN''), (''is_fully_enriched'', PBool True)],
               boost_factor = None\<rparr>)]"

text \<open>
  The total score of a document after the boosts, for rankings fused with the weights
  computed from them.
\<close>

definition boosted_total ::
  "rrf_fusion_engine \<Rightarrow> results_dict \<Rightarrow> query_analysis \<Rightarrow> string \<Rightarrow> exn + real" where
  "boosted_total engine normalized_results qa d =
     and_then (calculate_focused_rrf_scores engine normalized_results
                 (calculate_focused_weights normalized_results))
       (\<lambda>ds. Inr (doc_total (apply_focused_contextual_boosts ds qa) d))"


text \<open>
  When an enrichment has something for one of these fields: Wikipedia text, Wikipedia
  images, or, for a document without \<^verbatim>\<open>image_url\<close>, a dictionary among the first five
  Unsplash results.
\<close>

definition carries_enrichment :: "pydict \<Rightarrow> pydict \<Rightarrow> bool" where
  "carries_enrichment pl enrichment_data =
     (truthy (dict_get enrichment_data ''wikipedia_content'') \<or>
      truthy (dict_get enrichment_data ''wikipedia_images'') \<or>
      (truthy (dict_get enrichment_data ''unsplash_images'') \<and>
       \<not> truthy (dict_get pl ''image_url'') \<and>
       list_ex is_dict (take 5 (py_elements (dict_get enrichment_data ''unsplash_images'')))))"

text \<open>The keys the write-back assigns.\<close>

definition enrichment_keys :: "string set" where
  "enrichment_keys = {''description_enriched'', ''images_wikipedia'', ''images_unsplash'',
     ''enriched_at'', ''enrichment_sources'', ''is_enriched'', ''enriched_fields''}"


section \<open>Properties: Python values\<close>

lemma map_of_dict_set: "map_of (dict_set k v d) k' = (if k' = k then Some v else map_of d k')"
  by (simp add: dict_set_def update_conv')

lemma dict_get_dict_set: "dict_get (dict_set k v d) k' = (if k' = k then v else dict_get d k')"
  by (simp add: dict_get_def dict_get_default_def map_of_dict_set)

lemma and_then_Inr: "and_then r f = Inr y \<longleftrightarrow> (\<exists>x. r = Inr x \<and> f x = Inr y)"
  by (cases r) (simp_all add: and_then_def)


section \<open>Properties: enrichment write-back\<close>

lemma add_wikipedia_content_keeps:
  "k \<noteq> ''description_enriched'' \<Longrightarrow>
   map_of (fst (add_wikipedia_content ed (pl, fs))) k = map_of pl k"
  by (simp add: add_wikipedia_content_def map_of_dict_set)

lemma add_wikipedia_images_keeps:
  "add_wikipedia_images ed (pl, fs) = Inr (pl', fs') \<Longrightarrow> k \<noteq> ''images_wikipedia'' \<Longrightarrow>
   map_of pl' k = map_of pl k"
  by (auto simp: add_wikipedia_images_def and_then_Inr map_of_dict_set split: if_splits)

lemma add_unsplash_images_keeps:
  "add_unsplash_images ed (pl, fs) = Inr (pl', fs') \<Longrightarrow> k \<noteq> ''images_unsplash'' \<Longrightarrow>
   map_of pl' k = map_of pl k"
  by (auto simp: add_unsplash_images_def and_then_Inr map_of_dict_set split: if_splits)

lemma add_enrichment_metadata_keeps:
  "k \<notin> {''enriched_at'', ''enrichment_sources'', ''is_enriched'', ''enriched_fields''} \<Longrightarrow>
   map_of (add_enrichment_metadata now ed (pl, fs)) k = map_of pl k"
  by (simp add: add_enrichment_metadata_def map_of_dict_set)

lemma build_updated_payload_keeps:
  assumes "build_updated_payload now pl ed = Inr pl'" and "k \<notin> enrichment_keys"
  shows "map_of pl' k = map_of pl k"
proof -
  obtain p1 f1 where s1: "add_wikipedia_content ed (pl, []) = (p1, f1)"
    by (cases "add_wikipedia_content ed (pl, [])")
  from assms(1) s1 obtain p2 f2 p3 f3 where
    s2: "add_wikipedia_images ed (p1, f1) = Inr (p2, f2)" and
    s3: "add_unsplash_images ed (p2, f2) = Inr (p3, f3)" and
    s4: "pl' = add_enrichment_metadata now ed (p3, f3)"
    by (auto simp: build_updated_payload_def and_then_Inr)
  from assms(2) have k: "k \<noteq> ''description_enriched''" "k \<noteq> ''images_wikipedia''"
    "k \<noteq> ''images_unsplash''"
    "k \<notin> {''enriched_at'', ''enrichment_sources'', ''is_enriched'', ''enriched_fields''}"
    by (auto simp: enrichment_keys_def)
  have "map_of p1 k = map_of pl k"
    using add_wikipedia_content_keeps [OF k(1), of ed pl "[]"] s1 by simp
  moreover have "map_of p2 k = map_of p1 k"
    by (rule add_wikipedia_images_keeps [OF s2 k(2)])
  moreover have "map_of p3 k = map_of p2 k"
    by (rule add_unsplash_images_keeps [OF s3 k(3)])
  moreover have "map_of pl' k = map_of p3 k"
    unfolding s4 by (rule add_enrichment_metadata_keeps [OF k(4)])
  ultimately show ?thesis by simp
qed

lemma map_of_merge_payload:
  "map_of (merge_payload old new) k = (case map_of new k of Some v \<Rightarrow> Some v | None \<Rightarrow> map_of old k)"
proof -
  have "map_of (filter (\<lambda>(k, v). map_of new k = None) old) k =
        (if map_of new k = None then map_of old k else None)"
    by (induction old) auto
  then show ?thesis
    by (auto simp: merge_payload_def map_add_def split: option.splits)
qed

lemma merge_updated_keeps:
  assumes "build_updated_payload now pl ed = Inr pl'" and "k \<notin> enrichment_keys"
  shows "map_of (merge_payload pl pl') k = map_of pl k"
  using build_updated_payload_keeps [OF assms]
  by (simp add: map_of_merge_payload split: option.splits)

lemma image_url_not_enrichment_key: "''image_url'' \<notin> enrichment_keys"
  by (simp add: enrichment_keys_def)

lemma payload_not_enrichment_key: "''payload'' \<notin> enrichment_keys"
  by (simp add: enrichment_keys_def)

lemma write_point_image_url:
  assumes cp: "copy_payload p = Some (Inr pl)"
    and b: "build_updated_payload now pl ed = Inr pl'"
    and u: "map_of pl ''image_url'' = Some u"
  shows "\<exists>pl2. copy_payload (write_point p pl') = Some (Inr pl2) \<and>
           map_of pl2 ''image_url'' = Some u"
proof (cases p)
  case (Record po)
  with cp obtain old where "po = Some old" "pl = old" by (cases po) auto
  with Record u show ?thesis
    using merge_updated_keeps [OF b image_url_not_enrichment_key] by simp
next
  case (MockDict m)
  show ?thesis
  proof (cases "map_of m ''payload''")
    case None
    with MockDict cp have pl: "pl = m" by (simp add: dict_get_default_def)
    have "map_of (merge_payload m pl') ''payload'' = None"
      using merge_updated_keeps [OF b payload_not_enrichment_key] None pl by simp
    then show ?thesis
      using MockDict None pl u merge_updated_keeps [OF b image_url_not_enrichment_key]
      by (simp add: dict_get_default_def)
  next
    case (Some v)
    show ?thesis
    proof (cases v)
      case (PDict old)
      with MockDict cp Some have pl: "pl = old" by (simp add: dict_get_default_def)
      show ?thesis
        using MockDict Some PDict pl u merge_updated_keeps [OF b image_url_not_enrichment_key]
        by (simp add: dict_get_default_def map_of_dict_set)
    next
      case (PList xs)
      with MockDict cp Some have "pl = []"
        by (cases xs) (simp_all add: dict_get_default_def)
      with u show ?thesis by simp
    next
      case (PStr xs)
      with MockDict cp Some have "pl = []"
        by (cases xs) (simp_all add: dict_get_default_def)
      with u show ?thesis by simp
    qed (use MockDict cp Some in \<open>simp_all add: dict_get_default_def\<close>)
  qed
qed (use cp in simp_all)

lemma truthy_dict_get_Some: "truthy (dict_get pl k) \<Longrightarrow> \<exists>u. map_of pl k = Some u"
  by (cases "map_of pl k") (simp_all add: dict_get_def dict_get_default_def)

lemma dict_get_Some: "map_of pl k = Some u \<Longrightarrow> dict_get pl k = u"
  by (simp add: dict_get_def dict_get_default_def)

lemma persist_enrichment_sync_cases:
  "snd (persist_enrichment_sync now q d ed) = q \<or>
   (\<exists>cur cpl pl'. points q d = Some cur \<and> copy_payload cur = Some (Inr cpl) \<and>
      build_updated_payload now cpl ed = Inr pl' \<and>
      snd (persist_enrichment_sync now q d ed) = q\<lparr>points := (points q)(d \<mapsto> write_point cur pl')\<rparr>)"
proof (cases "retrieve_up q \<and> set_payload_up q")
  case False
  then show ?thesis
    by (auto simp: persist_enrichment_sync_def retrieve_def set_payload_def
             split: option.splits sum.splits list.splits)
next
  case up: True
  show ?thesis
  proof (cases "points q d")
    case None
    with up show ?thesis by (simp add: persist_enrichment_sync_def retrieve_def)
  next
    case (Some cur)
    show ?thesis
    proof (cases "copy_payload cur")
      case None
      with up Some show ?thesis by (simp add: persist_enrichment_sync_def retrieve_def)
    next
      case cp: (Some r)
      show ?thesis
      proof (cases r)
        case (Inl e)
        with up Some cp show ?thesis by (simp add: persist_enrichment_sync_def retrieve_def)
      next
        case (Inr cpl)
        show ?thesis
        proof (cases "build_updated_payload now cpl ed")
          case (Inl e)
          with up Some cp Inr show ?thesis
            by (simp add: persist_enrichment_sync_def retrieve_def)
        next
          case b: (Inr pl')
          with up Some cp Inr show ?thesis
            by (simp add: persist_enrichment_sync_def retrieve_def set_payload_def)
        qed
      qed
    qed
  qed
qed

text \<open>
  Claim C8 (image preservation).  For every document \<open>d\<close> whose stored payload has a
  non-empty \<^verbatim>\<open>image_url\<close>, and every write-back (to \<open>d\<close> or to any other document
  \<open>d'\<close>, succeeding or not), the payload of \<open>d\<close> afterwards has the same
  \<^verbatim>\<open>image_url\<close>.
\<close>

theorem image_url_preserved:
  assumes sp: "stored_payload q d = Some pl"
    and t: "truthy (dict_get pl ''image_url'')"
  shows "\<exists>pl'. stored_payload (snd (persist_enrichment_sync now q d' ed)) d = Some pl' \<and>
           dict_get pl' ''image_url'' = dict_get pl ''image_url''"
proof -
  from t obtain u where u: "map_of pl ''image_url'' = Some u"
    using truthy_dict_get_Some by blast
  from sp obtain p where p: "points q d = Some p" and cp: "copy_payload p = Some (Inr pl)"
    by (auto simp: stored_payload_def split: option.splits sum.splits)
  let ?q' = "snd (persist_enrichment_sync now q d' ed)"
  from persist_enrichment_sync_cases [of now q d' ed]
  consider (same) "?q' = q"
    | (written) cur cpl pl' where "points q d' = Some cur" "copy_payload cur = Some (Inr cpl)"
        "build_updated_payload now cpl ed = Inr pl'"
        "?q' = q\<lparr>points := (points q)(d' \<mapsto> write_point cur pl')\<rparr>"
    by blast
  then show ?thesis
  proof cases
    case same
    with sp show ?thesis by simp
  next
    case written
    show ?thesis
    proof (cases "d' = d")
      case False
      with written(4) sp show ?thesis by (simp add: stored_payload_def)
    next
      case True
      with written p cp have eq: "cur = p" "cpl = pl" by simp_all
      from write_point_image_url [OF cp written(3) [unfolded eq] u]
      obtain pl2 where "copy_payload (write_point p pl') = Some (Inr pl2)"
        "map_of pl2 ''image_url'' = Some u" by blast
      with written(4) True eq u show ?thesis
        by (simp add: stored_payload_def dict_get_Some)
    qed
  qed
qed

text \<open>
  The theorem at a document with an image and an enrichment that carries Unsplash
  images.
\<close>

theorem image_url_preserved_witness:
  "stored_payload \<lparr>points = [''doc1'' \<mapsto> Record (Some [(''name'', PStr ''Narikala''), (''image_url'', PStr ''https://img/1.jpg'')])],
       retrieve_up = True, set_payload_up = True\<rparr> ''doc1''
     = Some [(''name'', PStr ''Narikala''), (''image_url'', PStr ''https://img/1.jpg'')]
   \<and> truthy (dict_get [(''name'', PStr ''Narikala''), (''image_url'', PStr ''https://img/1.jpg'')] ''image_url'')
   \<and> (\<exists>pl'. stored_payload (snd (persist_enrichment_sync ''2025-01-01T00:00:00+00:00''
            \<lparr>points = [''doc1'' \<mapsto> Record (Some [(''name'', PStr ''Narikala''), (''image_url'', PStr ''https://img/1.jpg'')])],
              retrieve_up = True, set_payload_up = True\<rparr> ''doc1''
            [(''wikipedia_content'', PStr ''A fortress''), (''unsplash_images'', PList [PDict [(''alt_description'', PStr ''view'')]])])) ''doc1'' = Some pl'
        \<and> dict_get pl' ''image_url'' = PStr ''https://img/1.jpg'')"
proof -
  let ?pl = "[(''name'', PStr ''Narikala''), (''image_url'', PStr ''https://img/1.jpg'')]"
  let ?q = "\<lparr>points = [''doc1'' \<mapsto> Record (Some ?pl)], retrieve_up = True, set_payload_up = True\<rparr>"
  have h1: "stored_payload ?q ''doc1'' = Some ?pl" by (simp add: stored_payload_def)
  have h2: "truthy (dict_get ?pl ''image_url'')" by (simp add: dict_get_def dict_get_default_def)
  have h3: "dict_get ?pl ''image_url'' = PStr ''https://img/1.jpg''" by (simp add: dict_get_def dict_get_default_def)
  show ?thesis
    using h1 h2 image_url_preserved [OF h1 h2, of "''2025-01-01T00:00:00+00:00''" "''doc1''"
      "[(''wikipedia_content'', PStr ''A fortress''), (''unsplash_images'', PList [PDict [(''alt_description'', PStr ''view'')]])]"]
    unfolding h3 by blast
qed

lemma dict_get_cong: "map_of a k = map_of b k \<Longrightarrow> dict_get a k = dict_get b k"
  by (simp add: dict_get_def dict_get_default_def)

lemma unsplash_entries_length:
  "unsplash_entries xs = Inr es \<Longrightarrow> length es = length (filter is_dict xs)"
  by (induction xs arbitrary: es) (auto simp: and_then_Inr split: if_splits)

lemma py_slice_to_truthy: "py_slice_to n v = Inr s \<Longrightarrow> truthy v \<Longrightarrow> 0 < n \<Longrightarrow> truthy s"
  by (cases v) auto

lemma py_slice_to_elements: "py_slice_to n v = Inr s \<Longrightarrow> py_elements s = take n (py_elements v)"
  by (cases v) (auto simp: take_map)

lemma filter_nonempty_list_ex: "list_ex P xs \<Longrightarrow> filter P xs \<noteq> []"
  by (induction xs) auto

lemma build_updated_payload_steps:
  assumes "build_updated_payload now pl ed = Inr pl'"
  obtains p1 f1 p2 f2 p3 f3 where
    "add_wikipedia_content ed (pl, []) = (p1, f1)"
    "add_wikipedia_images ed (p1, f1) = Inr (p2, f2)"
    "add_unsplash_images ed (p2, f2) = Inr (p3, f3)"
    "pl' = add_enrichment_metadata now ed (p3, f3)"
proof -
  obtain p1 f1 where s1: "add_wikipedia_content ed (pl, []) = (p1, f1)"
    by (cases "add_wikipedia_content ed (pl, [])")
  with assms that show ?thesis
    by (auto simp: build_updated_payload_def and_then_Inr)
qed

lemma build_description_enriched:
  assumes b: "build_updated_payload now pl ed = Inr pl'"
    and t: "truthy (dict_get ed ''wikipedia_content'')"
  shows "truthy (dict_get pl' ''description_enriched'')"
proof -
  from b obtain p1 f1 p2 f2 p3 f3 where
    s1: "add_wikipedia_content ed (pl, []) = (p1, f1)" and
    s2: "add_wikipedia_images ed (p1, f1) = Inr (p2, f2)" and
    s3: "add_unsplash_images ed (p2, f2) = Inr (p3, f3)" and
    s4: "pl' = add_enrichment_metadata now ed (p3, f3)"
    by (rule build_updated_payload_steps)
  from s1 t have "dict_get p1 ''description_enriched'' = dict_get ed ''wikipedia_content''"
    by (auto simp: add_wikipedia_content_def dict_get_dict_set)
  moreover have "map_of p2 ''description_enriched'' = map_of p1 ''description_enriched''"
    by (rule add_wikipedia_images_keeps [OF s2]) simp
  moreover have "map_of p3 ''description_enriched'' = map_of p2 ''description_enriched''"
    by (rule add_unsplash_images_keeps [OF s3]) simp
  moreover have "map_of pl' ''description_enriched'' = map_of p3 ''description_enriched''"
    unfolding s4 by (rule add_enrichment_metadata_keeps) simp
  ultimately have "dict_get pl' ''description_enriched'' = dict_get ed ''wikipedia_content''"
    by (simp add: dict_get_def dict_get_default_def)
  with t show ?thesis by simp
qed

lemma build_images_wikipedia:
  assumes b: "build_updated_payload now pl ed = Inr pl'"
    and t: "truthy (dict_get ed ''wikipedia_images'')"
  shows "truthy (dict_get pl' ''images_wikipedia'')"
proof -
  from b obtain p1 f1 p2 f2 p3 f3 where
    s1: "add_wikipedia_content ed (pl, []) = (p1, f1)" and
    s2: "add_wikipedia_images ed (p1, f1) = Inr (p2, f2)" and
    s3: "add_unsplash_images ed (p2, f2) = Inr (p3, f3)" and
    s4: "pl' = add_enrichment_metadata now ed (p3, f3)"
    by (rule build_updated_payload_steps)
  from s2 t obtain imgs where "py_slice_to 5 (dict_get ed ''wikipedia_images'') = Inr imgs"
    "p2 = dict_set ''images_wikipedia'' imgs p1"
    by (auto simp: add_wikipedia_images_def and_then_Inr)
  with t have "truthy (dict_get p2 ''images_wikipedia'')"
    using py_slice_to_truthy [of 5 "dict_get ed ''wikipedia_images''" imgs]
    by (simp add: dict_get_dict_set)
  moreover have "map_of p3 ''images_wikipedia'' = map_of p2 ''images_wikipedia''"
    by (rule add_unsplash_images_keeps [OF s3]) simp
  moreover have "map_of pl' ''images_wikipedia'' = map_of p3 ''images_wikipedia''"
    unfolding s4 by (rule add_enrichment_metadata_keeps) simp
  ultimately show ?thesis
    by (simp add: dict_get_def dict_get_default_def)
qed

lemma build_images_unsplash:
  assumes b: "build_updated_payload now pl ed = Inr pl'"
    and t: "truthy (dict_get ed ''unsplash_images'')"
    and u: "\<not> truthy (dict_get pl ''image_url'')"
    and d: "list_ex is_dict (take 5 (py_elements (dict_get ed ''unsplash_images'')))"
  shows "truthy (dict_get pl' ''images_unsplash'')"
proof -
  from b obtain p1 f1 p2 f2 p3 f3 where
    s1: "add_wikipedia_content ed (pl, []) = (p1, f1)" and
    s2: "add_wikipedia_images ed (p1, f1) = Inr (p2, f2)" and
    s3: "add_unsplash_images ed (p2, f2) = Inr (p3, f3)" and
    s4: "pl' = add_enrichment_metadata now ed (p3, f3)"
    by (rule build_updated_payload_steps)
  have "map_of p1 ''image_url'' = map_of pl ''image_url''"
    using add_wikipedia_content_keeps [of "''image_url''" ed pl "[]"] s1 by simp
  moreover have "map_of p2 ''image_url'' = map_of p1 ''image_url''"
    by (rule add_wikipedia_images_keeps [OF s2]) simp
  ultimately have "dict_get p2 ''image_url'' = dict_get pl ''image_url''"
    by (simp add: dict_get_def dict_get_default_def)
  with u have u2: "\<not> truthy (dict_get p2 ''image_url'')" by simp
  from s3 t u2 obtain sl imgs where
    sl: "py_slice_to 5 (dict_get ed ''unsplash_images'') = Inr sl" and
    en: "unsplash_entries (py_elements sl) = Inr imgs" and
    p3: "p3 = dict_set ''images_unsplash'' (PList imgs) p2"
    by (auto simp: add_unsplash_images_def and_then_Inr)
  from d have "filter is_dict (py_elements sl) \<noteq> []"
    unfolding py_slice_to_elements [OF sl] by (rule filter_nonempty_list_ex)
  with unsplash_entries_length [OF en] have "imgs \<noteq> []" by auto
  with p3 have "truthy (dict_get p3 ''images_unsplash'')"
    by (simp add: dict_get_dict_set)
  moreover have "map_of pl' ''images_unsplash'' = map_of p3 ''images_unsplash''"
    unfolding s4 by (rule add_enrichment_metadata_keeps) simp
  ultimately show ?thesis
    by (simp add: dict_get_def dict_get_default_def)
qed

text \<open>
  Claim C7 (enrichment payload invariant), as the code has it.  Every payload the
  write-back produces has \<^verbatim>\<open>is_enriched = true\<close> and \<^verbatim>\<open>enriched_at\<close> set to the
  time of the write-back; one of \<^verbatim>\<open>description_enriched\<close>,
  \<^verbatim>\<open>images_wikipedia\<close>, \<^verbatim>\<open>images_unsplash\<close> is non-empty whenever the enrichment
  carries Wikipedia text, Wikipedia images, or (for a document without
  \<^verbatim>\<open>image_url\<close>) a dictionary among its first five Unsplash results.
\<close>

theorem enrichment_payload_invariant:
  assumes "build_updated_payload now pl ed = Inr pl'"
  shows "dict_get pl' ''is_enriched'' = PBool True \<and>
         dict_get pl' ''enriched_at'' = PStr now \<and>
         (carries_enrichment pl ed \<longrightarrow> has_enrichment_field pl')"
proof -
  from assms have "dict_get pl' ''is_enriched'' = PBool True" "dict_get pl' ''enriched_at'' = PStr now"
    by (auto simp: build_updated_payload_def and_then_Inr add_enrichment_metadata_def dict_get_dict_set)
  moreover have "has_enrichment_field pl'" if "carries_enrichment pl ed"
    using that build_description_enriched [OF assms] build_images_wikipedia [OF assms]
      build_images_unsplash [OF assms]
    unfolding carries_enrichment_def has_enrichment_field_def by blast
  ultimately show ?thesis by blast
qed

text \<open>The theorem at an enrichment with Wikipedia text.\<close>

theorem enrichment_payload_invariant_witness:
  "build_updated_payload ''2025-01-01T00:00:00+00:00'' [(''name'', PStr ''Narikala'')]
     [(''wikipedia_content'', PStr ''A fortress''), (''enrichment_sources'', PList [PStr ''wikipedia''])]
   = Inr [(''name'', PStr ''Narikala''), (''description_enriched'', PStr ''A fortress''),
          (''enriched_at'', PStr ''2025-01-01T00:00:00+00:00''),
          (''enrichment_sources'', PList [PStr ''wikipedia'']),
          (''is_enriched'', PBool True), (''enriched_fields'', PList [PStr ''wikipedia_content''])]
   \<and> carries_enrichment [(''name'', PStr ''Narikala'')]
        [(''wikipedia_content'', PStr ''A fortress''), (''enrichment_sources'', PList [PStr ''wikipedia''])]
   \<and> has_enrichment_field
        [(''name'', PStr ''Narikala''), (''description_enriched'', PStr ''A fortress''),
          (''enriched_at'', PStr ''2025-01-01T00:00:00+00:00''),
          (''enrichment_sources'', PList [PStr ''wikipedia'']),
          (''is_enriched'', PBool True), (''enriched_fields'', PList [PStr ''wikipedia_content''])]"
proof -
  let ?pl = "[(''name'', PStr ''Narikala'')]"
  let ?ed = "[(''wikipedia_content'', PStr ''A fortress''), (''enrichment_sources'', PList [PStr ''wikipedia''])]"
  let ?pl' = "[(''name'', PStr ''Narikala''), (''description_enriched'', PStr ''A fortress''),
          (''enriched_at'', PStr ''2025-01-01T00:00:00+00:00''),
          (''enrichment_sources'', PList [PStr ''wikipedia'']),
          (''is_enriched'', PBool True), (''enriched_fields'', PList [PStr ''wikipedia_content''])]"
  have b: "build_updated_payload ''2025-01-01T00:00:00+00:00'' ?pl ?ed = Inr ?pl'"
    by (simp add: build_updated_payload_def and_then_def add_wikipedia_content_def
          add_wikipedia_images_def add_unsplash_images_def add_enrichment_metadata_def
          dict_get_def dict_get_default_def dict_set_def)
  have c: "carries_enrichment ?pl ?ed"
    by (simp add: carries_enrichment_def dict_get_def dict_get_default_def)
  from enrichment_payload_invariant [OF b] c have "has_enrichment_field ?pl'" by blast
  with b c show ?thesis by blast
qed

text \<open>
  The claim as stated fails: when only the practical-information search answered (the
  Wikipedia summary came back empty), the write-back stores \<^verbatim>\<open>is_enriched = true\<close>
  with none of the three enrichment fields.
\<close>

theorem enrichment_payload_invariant_counterexample:
  "stored_payload
     (enrichment_write_back ''2025-01-01T00:00:00+00:00''
        \<lparr>points = [''doc1'' \<mapsto> Record (Some [(''name'', PStr ''Narikala'')])],
          retrieve_up = True, set_payload_up = True\<rparr>
        ''doc1'' True False
        [Inr (PDict [(''content'', PStr []), (''images'', PList [])]),
         Inr (PList [PDict [(''title'', PStr ''Opening hours'')]])]
        ''k1'')
     ''doc1''
   = Some [(''name'', PStr ''Narikala''),
           (''enriched_at'', PStr ''2025-01-01T00:00:00+00:00''),
           (''enrichment_sources'', PList [PStr ''serpapi'']),
           (''is_enriched'', PBool True), (''enriched_fields'', PList [])]
   \<and> dict_get
        [(''name'', PStr ''Narikala''),
           (''enriched_at'', PStr ''2025-01-01T00:00:00+00:00''),
           (''enrichment_sources'', PList [PStr ''serpapi'']),
           (''is_enriched'', PBool True), (''enriched_fields'', PList [])]
        ''is_enriched'' = PBool True
   \<and> \<not> has_enrichment_field
        [(''name'', PStr ''Narikala''),
           (''enriched_at'', PStr ''2025-01-01T00:00:00+00:00''),
           (''enrichment_sources'', PList [PStr ''serpapi'']),
           (''is_enriched'', PBool True), (''enriched_fields'', PList [])]"
  by (simp add: enrichment_write_back_def assemble_enrichment_def empty_enrichment_def
        persist_enrichment_sync_def retrieve_def set_payload_def stored_payload_def
        build_updated_payload_def and_then_def add_wikipedia_content_def
        add_wikipedia_images_def add_unsplash_images_def add_enrichment_metadata_def
        merge_payload_def has_enrichment_field_def
        dict_get_def dict_get_default_def dict_set_def)

section \<open>Properties: distinctive words\<close>

lemma verify_words_spec:
  "verify_words lang ws (aw, f) = (aw', f') \<Longrightarrow>
   fst ` set aw' = fst ` set aw \<union> set (map ulower ws) \<and>
   (f' \<longleftrightarrow> f \<or> \<not> (distinct (map ulower ws) \<and> set (map ulower ws) \<inter> fst ` set aw = {}))"
proof (induction ws arbitrary: aw f)
  case Nil
  then show ?case by simp
next
  case (Cons w ws)
  show ?case
  proof (cases "map_of aw (ulower w)")
    case None
    then have notin: "ulower w \<notin> fst ` set aw" by (simp add: map_of_eq_None_iff)
    from Cons.prems None
    have "verify_words lang ws (AList.update (ulower w) lang aw, f) = (aw', f')" by simp
    from Cons.IH [OF this] notin show ?thesis
      by (auto simp: dom_update)
  next
    case (Some l)
    then have "(ulower w, l) \<in> set aw" by (rule map_of_SomeD)
    then have "ulower w \<in> fst ` set aw" by force
    moreover from Cons.prems Some have "verify_words lang ws (aw, True) = (aw', f')" by simp
    from Cons.IH [OF this] have "fst ` set aw' = fst ` set aw \<union> set (map ulower ws)" "f'"
      by simp_all
    ultimately show ?thesis by auto
  qed
qed

lemma lowered_words_Cons:
  "lowered_words ((lang, ws) # table) = map ulower ws @ lowered_words table"
  by (simp add: lowered_words_def)

lemma verify_langs_spec:
  "verify_langs table (aw, f) = (aw', f') \<Longrightarrow>
   (f' \<longleftrightarrow> f \<or> \<not> (distinct (lowered_words table) \<and> set (lowered_words table) \<inter> fst ` set aw = {}))"
proof (induction table arbitrary: aw f)
  case Nil
  then show ?case by (simp add: lowered_words_def)
next
  case (Cons entry table)
  obtain lang ws where entry: "entry = (lang, ws)" by (cases entry)
  obtain aw1 f1 where s1: "verify_words lang ws (aw, f) = (aw1, f1)"
    by (cases "verify_words lang ws (aw, f)")
  from Cons.prems entry s1 have "verify_langs table (aw1, f1) = (aw', f')" by simp
  from Cons.IH [OF this]
  have i: "f' \<longleftrightarrow> f1 \<or> \<not> (distinct (lowered_words table) \<and>
               set (lowered_words table) \<inter> fst ` set aw1 = {})" .
  from verify_words_spec [OF s1]
  have k: "fst ` set aw1 = fst ` set aw \<union> set (map ulower ws)"
    and w: "f1 \<longleftrightarrow> f \<or> \<not> (distinct (map ulower ws) \<and> set (map ulower ws) \<inter> fst ` set aw = {})"
    by simp_all
  have d: "distinct (lowered_words (entry # table)) \<longleftrightarrow>
           distinct (map ulower ws) \<and> distinct (lowered_words table) \<and>
           set (map ulower ws) \<inter> set (lowered_words table) = {}"
    unfolding entry lowered_words_Cons by (simp only: distinct_append)
  have s: "set (lowered_words (entry # table)) = set (map ulower ws) \<union> set (lowered_words table)"
    unfolding entry lowered_words_Cons by (simp only: set_append)
  show ?case unfolding d s i w k by blast
qed

lemma verify_no_overlaps_iff: "verify_no_overlaps table \<longleftrightarrow> distinct (lowered_words table)"
proof -
  obtain aw' f' where "verify_langs table ([], False) = (aw', f')"
    by (cases "verify_langs table ([], False)")
  from verify_langs_spec [OF this] this show ?thesis
    by (simp add: verify_no_overlaps_def)
qed

lemma lowered_words_disjoint:
  assumes "distinct (lowered_words table)"
    and "map_of table a = Some xs" and "map_of table b = Some ys" and "a \<noteq> b"
  shows "set (map ulower xs) \<inter> set (map ulower ys) = {}"
  using assms
proof (induction table)
  case Nil
  then show ?case by simp
next
  case (Cons entry table)
  obtain lang ws where entry: "entry = (lang, ws)" by (cases entry)
  have sub: "set (map ulower zs) \<subseteq> set (lowered_words table)" if "map_of table c = Some zs" for c zs
  proof -
    from that have "(c, zs) \<in> set table" by (rule map_of_SomeD)
    then show ?thesis unfolding lowered_words_def by force
  qed
  from Cons.prems(1) entry have d: "distinct (lowered_words table)"
    and dj: "set (map ulower ws) \<inter> set (lowered_words table) = {}"
    by (simp_all add: lowered_words_def)
  consider (a) "a = lang" "b \<noteq> lang" | (b) "b = lang" "a \<noteq> lang" | (n) "a \<noteq> lang" "b \<noteq> lang"
    using Cons.prems(4) by blast
  then show ?case
  proof cases
    case a
    with Cons.prems entry have "xs = ws" "map_of table b = Some ys" by simp_all
    with sub [of b ys] dj show ?thesis by blast
  next
    case b
    with Cons.prems entry have "ys = ws" "map_of table a = Some xs" by simp_all
    with sub [of a xs] dj show ?thesis by blast
  next
    case n
    with Cons.prems entry have "map_of table a = Some xs" "map_of table b = Some ys" by simp_all
    from Cons.IH [OF d this Cons.prems(4)] show ?thesis .
  qed
qed

lemma distinctive_words_lower: "lowered_words distinctive_words = concat (map snd distinctive_words)"
  by (simp add: lowered_words_def distinctive_words_def ulower_def lower_cp_def)

lemma distinctive_words_distinct: "distinct (lowered_words distinctive_words)"
  unfolding distinctive_words_lower by (simp add: distinctive_words_def)

text \<open>
  Claim C6 (zero overlap).  The start-up check \<^verbatim>\<open>_verify_no_overlaps\<close> succeeds on
  the table of the source, and for any two different language codes the lower-cased
  distinctive words of the one and of the other have no word in common (a language
  without an entry has no distinctive words).
\<close>

theorem zero_overlap:
  "verify_no_overlaps distinctive_words \<and>
   (\<forall>l1 l2. l1 \<noteq> l2 \<longrightarrow>
      set (map ulower (words_of l1)) \<inter> set (map ulower (words_of l2)) = {})"
proof (intro conjI allI impI)
  show "verify_no_overlaps distinctive_words"
    by (simp add: verify_no_overlaps_iff distinctive_words_distinct)
next
  fix l1 l2 :: string
  assume ne: "l1 \<noteq> l2"
  show "set (map ulower (words_of l1)) \<inter> set (map ulower (words_of l2)) = {}"
  proof (cases "map_of distinctive_words l1")
    case None
    then show ?thesis by (simp add: words_of_def)
  next
    case s1: (Some xs)
    show ?thesis
    proof (cases "map_of distinctive_words l2")
      case None
      then show ?thesis by (simp add: words_of_def)
    next
      case s2: (Some ys)
      from lowered_words_disjoint [OF distinctive_words_distinct s1 s2 ne] s1 s2
      show ?thesis by (simp add: words_of_def)
    qed
  qed
qed

text \<open>
  The theorem at Polish and Czech, whose lists hold two look-alike words (the sixth of
  the Polish list and the fifth of the Czech one).
\<close>

theorem zero_overlap_witness:
  "''pl'' \<noteq> ''cs'' \<and>
   [107, 116, 243, 114, 121] \<in> set (words_of ''pl'') \<and>
   [107, 116, 101, 114, 253] \<in> set (words_of ''cs'') \<and>
   set (map ulower (words_of ''pl'')) \<inter> set (map ulower (words_of ''cs'')) = {}"
proof -
  have ne: "''pl'' \<noteq> ''cs''" by simp
  have pl: "[107, 116, 243, 114, 121] \<in> set (words_of ''pl'')"
    unfolding words_of_def distinctive_words_def by simp
  have cs: "[107, 116, 101, 114, 253] \<in> set (words_of ''cs'')"
    unfolding words_of_def distinctive_words_def by simp
  from zero_overlap have "\<forall>l1 l2. l1 \<noteq> l2 \<longrightarrow>
      set (map ulower (words_of l1)) \<inter> set (map ulower (words_of l2)) = {}" by (rule conjunct2)
  then have "''pl'' \<noteq> ''cs'' \<longrightarrow>
      set (map ulower (words_of ''pl'')) \<inter> set (map ulower (words_of ''cs'')) = {}"
    by (elim allE)
  then have "set (map ulower (words_of ''pl'')) \<inter> set (map ulower (words_of ''cs'')) = {}"
    using ne by (rule mp)
  with ne pl cs show ?thesis by (intro conjI)
qed

section \<open>Properties: candidate prefilter\<close>

lemma get_filtered_candidates_miss:
  assumes "map_of (candidates_cache eng) (create_cache_key env qa n) = None"
  shows "fst (get_filtered_candidates env eng qa n w) =
     (case first_attempt env qa n w of
        (Inl e, w1) \<Rightarrow> Inr (error_result e (clock env w1 - clock env w))
      | (Inr cands, w1) \<Rightarrow>
          Inr (if cands = [] \<and> filter_strategy qa \<noteq> ''loose''
               then fst (apply_fallback_strategy env qa n
                           (first_result qa cands (clock env w1 - clock env w)) w1)
               else first_result qa cands (clock env w1 - clock env w)))"
  using assms
  by (auto simp: get_filtered_candidates_def filtered_candidates_body_def Let_def first_result_def
           split: prod.splits sum.splits)

lemma get_filtered_candidates_returns:
  "\<exists>r. fst (get_filtered_candidates env eng qa n w) = Inr r"
  by (auto simp: get_filtered_candidates_def Let_def split: option.splits prod.splits sum.splits)


text \<open>
  Claim C10.  \<^verbatim>\<open>get_filtered_candidates\<close> always returns a record.  On a request that
  is not answered from the cache: when building the filter or the search raises, the
  record has no candidates, count 0, strategy \<^verbatim>\<open>'error'\<close>, \<^verbatim>\<open>fallback_used\<close> false
  and the message of the exception; when the first search found nothing, the strategy is
  not \<^verbatim>\<open>'loose'\<close> and the fallback raises, the record is the one built before the
  fallback.
\<close>

theorem prefilter_never_raises:
  "\<exists>r. fst (get_filtered_candidates env eng qa n w) = Inr r \<and>
     (map_of (candidates_cache eng) (create_cache_key env qa n) = None \<longrightarrow>
        (\<forall>e. fst (first_attempt env qa n w) = Inl e \<longrightarrow>
           candidates r = [] \<and> count r = 0 \<and> strategy_used r = ''error'' \<and>
           \<not> fallback_used r \<and> error r = Some (exn_message e)) \<and>
        (\<forall>w1 e. first_attempt env qa n w = (Inr [], w1) \<and> filter_strategy qa \<noteq> ''loose'' \<and>
           fst (fallback_body env qa n w1) = Inl e \<longrightarrow>
           r = first_result qa [] (clock env w1 - clock env w)))"
proof (cases "map_of (candidates_cache eng) (create_cache_key env qa n)")
  case (Some cached)
  with get_filtered_candidates_returns [of env eng qa n w] show ?thesis by auto
next
  case None
  note eq = get_filtered_candidates_miss [OF None, of w]
  obtain res w1 where fa: "first_attempt env qa n w = (res, w1)"
    by (cases "first_attempt env qa n w")
  show ?thesis
  proof (cases res)
    case (Inl e)
    with fa eq show ?thesis by (simp add: error_result_def)
  next
    case (Inr cands)
    show ?thesis
    proof (cases "cands = [] \<and> filter_strategy qa \<noteq> ''loose''")
      case False
      with fa Inr eq show ?thesis by auto
    next
      case True
      obtain fres w2 where fb: "fallback_body env qa n w1 = (fres, w2)"
        by (cases "fallback_body env qa n w1")
      show ?thesis
      proof (cases fres)
        case (Inl e)
        with fa Inr True fb eq show ?thesis by (simp add: apply_fallback_strategy_def)
      next
        case r: (Inr triple)
        with fa Inr True fb eq show ?thesis
          by (simp add: apply_fallback_strategy_def split: prod.splits)
      qed
    qed
  qed
qed

text \<open>
  The theorem at a search that times out, and at a first search that finds nothing
  followed by a retry that times out.
\<close>

theorem prefilter_never_raises_witness:
  "map_of (candidates_cache new_prefilter_engine)
     (create_cache_key (scripted_env [Inl (RemoteError ''timeout'')]) church_query 200) = None \<and>
   fst (first_attempt (scripted_env [Inl (RemoteError ''timeout'')]) church_query 200 0)
     = Inl (RemoteError ''timeout'') \<and>
   (\<exists>r. fst (get_filtered_candidates (scripted_env [Inl (RemoteError ''timeout'')])
              new_prefilter_engine church_query 200 0) = Inr r \<and>
        candidates r = [] \<and> count r = 0 \<and> strategy_used r = ''error'' \<and>
        \<not> fallback_used r \<and> error r = Some ''timeout'') \<and>
   first_attempt (scripted_env [Inr [], Inl (RemoteError ''timeout'')]) church_query 200 0
     = (Inr [], 1) \<and>
   filter_strategy church_query \<noteq> ''loose'' \<and>
   fst (fallback_body (scripted_env [Inr [], Inl (RemoteError ''timeout'')]) church_query 200 1)
     = Inl (RemoteError ''timeout'') \<and>
   (\<exists>r. fst (get_filtered_candidates (scripted_env [Inr [], Inl (RemoteError ''timeout'')])
              new_prefilter_engine church_query 200 0) = Inr r \<and>
        r = first_result church_query [] 1 \<and> strategy_used r = ''moderate'' \<and> \<not> fallback_used r)"
proof -
  let ?envA = "scripted_env [Inl (RemoteError ''timeout'')]"
  let ?envB = "scripted_env [Inr [], Inl (RemoteError ''timeout'')]"
  have miss: "map_of (candidates_cache new_prefilter_engine) k = None" for k
    by (simp add: new_prefilter_engine_def)
  have filt: "create_adaptive_filter church_query = Inr (Some (Filter []
       [FieldCond \<lparr>fc_key = ''is_religious_site'', fc_match = Some (MatchValue (PBool True))\<rparr>,
        FieldCond \<lparr>fc_key = ''is_historical_site'', fc_match = Some (MatchValue (PBool True))\<rparr>]))"
    by (simp add: create_adaptive_filter_def church_query_def and_then_def)
  have filt': "create_adaptive_filter (church_query\<lparr>filter_strategy := ''loose''\<rparr>) = Inr (Some (Filter []
       [FieldCond \<lparr>fc_key = ''is_religious_site'', fc_match = Some (MatchValue (PBool True))\<rparr>]))"
    by (simp add: create_adaptive_filter_def church_query_def and_then_def)
  have a1: "fst (first_attempt ?envA church_query 200 0) = Inl (RemoteError ''timeout'')"
    by (simp add: first_attempt_def filt execute_candidate_search_def scripted_env_def)
  have b1: "first_attempt ?envB church_query 200 0 = (Inr [], 1)"
    by (simp add: first_attempt_def filt execute_candidate_search_def scripted_env_def)
  have b2: "filter_strategy church_query \<noteq> ''loose''"
    by (simp add: church_query_def)
  have b3: "fst (fallback_body ?envB church_query 200 1) = Inl (RemoteError ''timeout'')"
    by (simp add: fallback_body_def filt' execute_candidate_search_def scripted_env_def)
  have clkB: "clock ?envB 1 - clock ?envB 0 = 1"
    by (simp add: scripted_env_def)
  from prefilter_never_raises [of ?envA new_prefilter_engine church_query 200 0]
    miss [of "create_cache_key ?envA church_query 200"] a1
  have A: "\<exists>r. fst (get_filtered_candidates ?envA new_prefilter_engine church_query 200 0) = Inr r \<and>
        candidates r = [] \<and> count r = 0 \<and> strategy_used r = ''error'' \<and>
        \<not> fallback_used r \<and> error r = Some ''timeout''"
    by fastforce
  from prefilter_never_raises [of ?envB new_prefilter_engine church_query 200 0]
    miss [of "create_cache_key ?envB church_query 200"] b1 b2 b3
  obtain r where "fst (get_filtered_candidates ?envB new_prefilter_engine church_query 200 0) = Inr r"
    "r = first_result church_query [] (clock ?envB 1 - clock ?envB 0)"
    by blast
  then have B: "\<exists>r. fst (get_filtered_candidates ?envB new_prefilter_engine church_query 200 0) = Inr r \<and>
        r = first_result church_query [] 1 \<and> strategy_used r = ''moderate'' \<and> \<not> fallback_used r"
    unfolding clkB by (simp add: first_result_def church_query_def)
  from miss [of "create_cache_key ?envA church_query 200"] a1 A b1 b2 b3 B
  show ?thesis by blast
qed

lemma fallback_filter_exists:
  "create_adaptive_filter qa = Inr f \<Longrightarrow>
   \<exists>ff. create_adaptive_filter (qa\<lparr>filter_strategy := s\<rparr>) = Inr ff"
  by (cases "split_filters (qdrant_filters qa)")
     (auto simp: create_adaptive_filter_def and_then_def Let_def split: if_splits prod.splits)




section \<open>Properties: BM25 result cache\<close>

text \<open>
  A fresh cache entry is returned as it is, whatever the candidate documents are, as long
  as there are candidates and keywords.
\<close>

lemma search_within_candidates_hit:
  assumes "candidate_docs \<noteq> []" and "kws \<noteq> []" and "q \<noteq> []"
    and "map_of (results_cache eng) (bm25_cache_key lib q) = Some entry"
    and "now - entry_timestamp entry \<le> cache_ttl"
  shows "fst (search_within_candidates lib eng now kws candidate_docs lang top_k (Some q))
           = Inr (entry_results entry)"
  using assms
  by (simp add: search_within_candidates_def get_from_cache_def)

text \<open>
  Claim C4 at a failing input.  The cache holds the ranking \<open>d1, d2\<close> for the query,
  stored 60 seconds ago; the current candidate set holds \<open>d2\<close> only.  The engine
  returns both results, where the restriction to the candidate set keeps only the second.
\<close>

theorem bm25_cache_hit_not_restricted:
  "fst (search_within_candidates lib (warm_bm25_engine lib ''church in Mtskheta'') 1060
          [''church''] [jvari_doc] ''en'' 10 (Some ''church in Mtskheta''))
     = Inr [svetitskhoveli_result, jvari_result] \<and>
   restrict_to_candidates [jvari_doc] [svetitskhoveli_result, jvari_result] = [jvari_result] \<and>
   [svetitskhoveli_result, jvari_result] \<noteq> [jvari_result]"
  by (simp add: search_within_candidates_def get_from_cache_def warm_bm25_engine_def
        init_bm25_engine_def cache_ttl_def restrict_to_candidates_def
        svetitskhoveli_result_def jvari_result_def jvari_doc_def)

section \<open>Properties: rank fusion\<close>

lemma rrf_contribution_eq:
  "rrf_contribution kr weight s rank = specified_contribution kr weight s rank"
proof -
  have b: "weight * (1 / x) * s * 10 = weight * 10 * s / x" for x :: real
    by simp
  have c: "(if p then a * 3 else if q then a * 2 else if r then a * 1.5 else a)
           = a * (if p then 3 else if q then 2 else if r then 1.5 else 1)" for a :: real and p q r
    by simp
  show ?thesis
    unfolding rrf_contribution_def specified_contribution_def position_amplification_def Let_def b
    by (rule c)
qed

lemma doc_total_add_contribution:
  "doc_total (add_contribution src rank r x ds) d =
     doc_total ds d + (if doc_id r = d then x else 0)"
  by (simp add: doc_total_def add_contribution_def Let_def update_conv' split: option.splits)

lemma rrf_source_total:
  assumes "py_num kv = Some kr" and "rrf_source kv src weight n rs ds = Inr ds'"
  shows "doc_total ds' d = doc_total ds d + entry_sum kr weight d (ranked_from n rs)"
  using assms(2)
proof (induction rs arbitrary: n ds)
  case Nil
  then show ?case by (simp add: entry_sum_def)
next
  case (Cons r rs)
  from Cons.prems assms(1)
  have step: "rrf_source kv src weight (Suc n) rs
                (add_contribution src n r (rrf_contribution kr weight (score r) n) ds) = Inr ds'"
    by (simp split: if_splits)
  from Cons.IH [OF step] show ?case
    by (simp add: doc_total_add_contribution rrf_contribution_eq entry_sum_def)
qed


lemma specified_total_Nil: "specified_total kr weights [] d = 0"
  by (simp add: specified_total_def fusion_entries_def)

lemma specified_total_Cons:
  "specified_total kr weights ((src, rs) # rest) d =
     (if src = ''prefilter_info'' then 0
      else entry_sum kr (weight_of weights src) d (ranked_from 1 rs))
     + specified_total kr weights rest d"
proof -
  have "sum_list (map (\<lambda>(src', rank, r). specified_contribution kr (weight_of weights src') (score r) rank)
                   (filter (\<lambda>(src', rank, r). doc_id r = d) (map (\<lambda>(rank, r). (src, rank, r)) es)))
        = entry_sum kr (weight_of weights src) d es" for es
    by (induction es) (auto simp: entry_sum_def)
  then show ?thesis
    by (simp add: specified_total_def fusion_entries_def entry_sum_def)
qed

lemma rrf_sources_total:
  assumes "py_num kv = Some kr" and "rrf_sources kv weights nr ds = Inr ds'"
  shows "doc_total ds' d = doc_total ds d + specified_total kr weights nr d"
  using assms(2)
proof (induction nr arbitrary: ds)
  case Nil
  then show ?case by (simp add: specified_total_Nil)
next
  case (Cons entry rest)
  obtain src rs where entry: "entry = (src, rs)" by (cases entry)
  show ?case
  proof (cases "src = ''prefilter_info'' \<or> rs = []")
    case True
    with Cons.prems entry have "rrf_sources kv weights rest ds = Inr ds'" by simp
    from Cons.IH [OF this] True show ?thesis
      unfolding entry specified_total_Cons by (auto simp: entry_sum_def)
  next
    case False
    with Cons.prems entry obtain ds1 where
      s1: "rrf_source kv src (weight_of weights src) 1 rs ds = Inr ds1" and
      s2: "rrf_sources kv weights rest ds1 = Inr ds'"
      by (auto simp: and_then_Inr)
    from rrf_source_total [OF assms(1) s1, of d] Cons.IH [OF s2] False show ?thesis
      unfolding entry specified_total_Cons by simp
  qed
qed

lemma doc_total_Nil: "doc_total [] d = 0"
  by (simp add: doc_total_def)

lemma hybrid_rrf_engine_k:
  "engine_k (hybrid_rrf_engine config) = dict_get_default (hybrid_config config) ''rrf_k'' (PInt 60)"
  by (simp add: hybrid_rrf_engine_def init_rrf_fusion_engine_def)

text \<open>
  Claim C2, as the code has it.  In clean fusion the total score of every document is
  the sum, over the entries (source, document, rank) of the rankings, of
  weight \<times> 10 \<times> normalized score / (k + rank), times 3, 2 or 1.5 at the ranks 1, 2
  and 3, where \<open>k\<close> is the constant the engine was constructed with.  The engine's own
  default is 3; the hybrid orchestrator constructs it with the configuration entry
  \<^verbatim>\<open>rrf_k\<close>, and with 60 when there is no such entry.
\<close>

theorem clean_fusion_contribution:
  assumes "py_num (engine_k engine) = Some kr"
    and "calculate_focused_rrf_scores engine normalized_results weights = Inr ds"
  shows "doc_total ds d = specified_total kr weights normalized_results d \<and>
         engine_k (init_rrf_fusion_engine None) = PInt 3 \<and>
         engine_k (hybrid_rrf_engine None) = PInt 60 \<and>
         engine_k (hybrid_rrf_engine (Some config)) = dict_get_default config ''rrf_k'' (PInt 60)"
proof -
  from assms(2) have "rrf_sources (engine_k engine) weights normalized_results [] = Inr ds"
    by (simp add: calculate_focused_rrf_scores_def)
  from rrf_sources_total [OF assms(1) this, of d]
  have "doc_total ds d = specified_total kr weights normalized_results d"
    by (simp add: doc_total_Nil)
  then show ?thesis
    by (simp add: hybrid_rrf_engine_k hybrid_config_def init_rrf_fusion_engine_def
          dict_get_default_def)
qed


lemma fuse_one_normalized:
  "normalize_focused_scores (results_to_fuse [svetitskhoveli_result] [])
     = [(''bm25_focused'', [svetitskhoveli_result\<lparr>score := 1\<rparr>]),
        (''dense_focused'', []), (''prefilter_info'', [])]"
  by (simp add: normalize_focused_scores_def results_to_fuse_def normalize_source_def
        svetitskhoveli_result_def startswith_def)

lemma fuse_one_weights:
  "calculate_focused_weights (results_to_fuse [svetitskhoveli_result] [])
     = [(''bm25_focused'', 9 / 20), (''dense_focused'', 11 / 20)]"
  by (simp add: calculate_focused_weights_def results_to_fuse_def base_weight_def)

lemma fuse_one_scores:
  "calculate_focused_rrf_scores (hybrid_rrf_engine None)
     (normalize_focused_scores (results_to_fuse [svetitskhoveli_result] []))
     (calculate_focused_weights (results_to_fuse [svetitskhoveli_result] []))
   = Inr [(''d1'',
           \<lparr>total_score = 27 / 122, source_scores = [(''bm25_focused'', 27 / 122)],
            rank_info = [(''bm25_focused'', 1)],
            result = svetitskhoveli_result\<lparr>score := 1\<rparr>, boost_factor = None\<rparr>)]"
  unfolding fuse_one_normalized fuse_one_weights
  by (simp add: calculate_focused_rrf_scores_def hybrid_rrf_engine_def hybrid_config_def
        init_rrf_fusion_engine_def dict_get_default_def and_then_def weight_of_def
        add_contribution_def rrf_contribution_def svetitskhoveli_result_def)

text \<open>
  The theorem at the orchestrator's engine without a configuration, fusing one BM25
  result: the document gets 0.45 \<times> 10 \<times> 1 / (60 + 1) \<times> 3.
\<close>

theorem clean_fusion_contribution_witness:
  "py_num (engine_k (hybrid_rrf_engine None)) = Some 60 \<and>
   doc_total
     [(''d1'',
       \<lparr>total_score = 27 / 122, source_scores = [(''bm25_focused'', 27 / 122)],
        rank_info = [(''bm25_focused'', 1)],
        result = svetitskhoveli_result\<lparr>score := 1\<rparr>, boost_factor = None\<rparr>)] ''d1''
     = specified_total 60
         (calculate_focused_weights (results_to_fuse [svetitskhoveli_result] []))
         (normalize_focused_scores (results_to_fuse [svetitskhoveli_result] [])) ''d1'' \<and>
   specified_total 60
     (calculate_focused_weights (results_to_fuse [svetitskhoveli_result] []))
     (normalize_focused_scores (results_to_fuse [svetitskhoveli_result] [])) ''d1''
     = 0.45 * 10 * 1 / (60 + 1) * 3"
proof -
  have k: "py_num (engine_k (hybrid_rrf_engine None)) = Some 60"
    by (simp add: hybrid_rrf_engine_def hybrid_config_def init_rrf_fusion_engine_def
          dict_get_default_def)
  have v: "specified_total 60
     (calculate_focused_weights (results_to_fuse [svetitskhoveli_result] []))
     (normalize_focused_scores (results_to_fuse [svetitskhoveli_result] [])) ''d1''
     = 0.45 * 10 * 1 / (60 + 1) * 3"
    unfolding fuse_one_normalized fuse_one_weights
    by (simp add: specified_total_def fusion_entries_def specified_contribution_def
          position_amplification_def weight_of_def svetitskhoveli_result_def)
  from clean_fusion_contribution [OF k fuse_one_scores, of "''d1''"] k v
  show ?thesis by blast
qed

text \<open>
  The claim as stated, with \<open>k = 3\<close> for the engine of the orchestrator, fails: without a
  configuration entry the orchestrator's engine has \<open>k = 60\<close>, and the first BM25 result
  gets 27/122, not the 27/8 that \<open>k = 3\<close> gives.
\<close>

theorem clean_fusion_contribution_counterexample:
  "engine_k (hybrid_rrf_engine None) = PInt 60 \<and>
   calculate_focused_rrf_scores (hybrid_rrf_engine None)
     (normalize_focused_scores (results_to_fuse [svetitskhoveli_result] []))
     (calculate_focused_weights (results_to_fuse [svetitskhoveli_result] []))
   = Inr [(''d1'',
           \<lparr>total_score = 27 / 122, source_scores = [(''bm25_focused'', 27 / 122)],
            rank_info = [(''bm25_focused'', 1)],
            result = svetitskhoveli_result\<lparr>score := 1\<rparr>, boost_factor = None\<rparr>)] \<and>
   specified_total 3
     (calculate_focused_weights (results_to_fuse [svetitskhoveli_result] []))
     (normalize_focused_scores (results_to_fuse [svetitskhoveli_result] [])) ''d1'' = 27 / 8 \<and>
   (27 / 122 :: real) \<noteq> 27 / 8"
proof -
  have "specified_total 3
     (calculate_focused_weights (results_to_fuse [svetitskhoveli_result] []))
     (normalize_focused_scores (results_to_fuse [svetitskhoveli_result] [])) ''d1'' = 27 / 8"
    unfolding fuse_one_normalized fuse_one_weights
    by (simp add: specified_total_def fusion_entries_def specified_contribution_def
          position_amplification_def weight_of_def svetitskhoveli_result_def)
  with fuse_one_scores show ?thesis
    by (simp add: hybrid_rrf_engine_def hybrid_config_def init_rrf_fusion_engine_def
          dict_get_default_def)
qed

subsection \<open>Totals before the boosts\<close>

lemma clean_fusion_totals:
  assumes "py_num (engine_k engine) = Some kr"
    and "calculate_focused_rrf_scores engine nr weights = Inr ds"
  shows "doc_total ds d = specified_total kr weights nr d"
proof -
  from assms(2) have "rrf_sources (engine_k engine) weights nr [] = Inr ds"
    by (simp add: calculate_focused_rrf_scores_def)
  from rrf_sources_total [OF assms(1) this, of d] show ?thesis
    by (simp add: doc_total_Nil)
qed

lemma find_ranked_from_None:
  "find (\<lambda>(rank, r). doc_id r = d) (ranked_from n rs) = None \<longleftrightarrow> d \<notin> doc_id ` set rs"
  by (induction rs arbitrary: n) auto

lemma find_ranked_from_Some:
  "find (\<lambda>(rank, r). doc_id r = d) (ranked_from n rs) = Some (rank, x) \<Longrightarrow>
   n \<le> rank \<and> doc_id x = d \<and> x \<in> set rs"
proof (induction rs arbitrary: n)
  case Nil
  then show ?case by simp
next
  case (Cons r rs)
  show ?case
  proof (cases "doc_id r = d")
    case True
    with Cons.prems show ?thesis by simp
  next
    case False
    with Cons.prems have "find (\<lambda>(rank, r). doc_id r = d) (ranked_from (Suc n) rs) = Some (rank, x)"
      by simp
    from Cons.IH [OF this] show ?thesis by simp
  qed
qed

lemma entry_sum_absent:
  "d \<notin> doc_id ` set rs \<Longrightarrow> entry_sum kr w d (ranked_from n rs) = 0"
  by (induction rs arbitrary: n) (auto simp: entry_sum_def)

lemma entry_sum_distinct:
  "distinct (map doc_id rs) \<Longrightarrow>
   entry_sum kr w d (ranked_from n rs) =
     (case find (\<lambda>(rank, r). doc_id r = d) (ranked_from n rs) of
        None \<Rightarrow> 0
      | Some (rank, r) \<Rightarrow> specified_contribution kr w (score r) rank)"
proof (induction rs arbitrary: n)
  case Nil
  then show ?case by (simp add: entry_sum_def)
next
  case (Cons r rs)
  show ?case
  proof (cases "doc_id r = d")
    case True
    with Cons.prems have "d \<notin> doc_id ` set rs" by auto
    from entry_sum_absent [OF this, of kr w "Suc n"] True show ?thesis
      by (simp add: entry_sum_def)
  next
    case False
    with Cons.IH [of "Suc n"] Cons.prems show ?thesis
      by (simp add: entry_sum_def)
  qed
qed

lemma position_amplification_pos: "0 < position_amplification rank"
  by (simp add: position_amplification_def)

lemma position_amplification_antimono:
  "1 \<le> ra \<Longrightarrow> ra \<le> rb \<Longrightarrow> position_amplification rb \<le> position_amplification ra"
  by (simp add: position_amplification_def)

lemma specified_contribution_nonneg:
  assumes "0 \<le> kr" "0 < w" "0 \<le> s" "1 \<le> rank"
  shows "0 \<le> specified_contribution kr w s rank"
  using assms position_amplification_pos [of rank]
  by (simp add: specified_contribution_def)

lemma specified_contribution_strict:
  assumes kr: "0 \<le> kr" and w: "0 < w" and r: "1 \<le> ra" "ra < rb" and s: "0 \<le> sb" "sb < sa"
  shows "specified_contribution kr w sb rb < specified_contribution kr w sa ra"
proof -
  have da: "0 < kr + real ra" and db: "0 < kr + real rb" and dd: "kr + real ra < kr + real rb"
    using kr r by simp_all
  have "w * 10 * sb / (kr + real rb) \<le> w * 10 * sb / (kr + real ra)"
    using w s(1) da dd by (intro divide_left_mono) (simp_all add: mult_pos_pos)
  also have "\<dots> < w * 10 * sa / (kr + real ra)"
    using w s(2) da by (simp add: divide_strict_right_mono)
  finally have q: "w * 10 * sb / (kr + real rb) < w * 10 * sa / (kr + real ra)" .
  have qb: "0 \<le> w * 10 * sb / (kr + real rb)"
    using w s(1) db by simp
  have "w * 10 * sb / (kr + real rb) * position_amplification rb
          \<le> w * 10 * sb / (kr + real rb) * position_amplification ra"
    using qb position_amplification_antimono [of ra rb] r by (intro mult_left_mono) simp_all
  also have "\<dots> < w * 10 * sa / (kr + real ra) * position_amplification ra"
    using q position_amplification_pos [of ra] by (intro mult_strict_right_mono)
  finally show ?thesis by (simp add: specified_contribution_def)
qed

lemma specified_total_sources:
  "specified_total kr weights nr d = sum_list (map (source_contribution kr weights d) nr)"
proof (induction nr)
  case Nil
  show ?case by (simp add: specified_total_Nil)
next
  case (Cons entry nr)
  obtain src rs where "entry = (src, rs)" by (cases entry)
  with Cons show ?case by (simp add: specified_total_Cons source_contribution_def)
qed

lemma sum_list_strict:
  fixes f g :: "'a \<Rightarrow> real"
  assumes "\<forall>x \<in> set xs. f x \<le> g x" and "\<exists>x \<in> set xs. f x < g x"
  shows "sum_list (map f xs) < sum_list (map g xs)"
  using assms
proof (induction xs)
  case Nil
  then show ?case by simp
next
  case (Cons x xs)
  have le: "sum_list (map f xs) \<le> sum_list (map g xs)"
    using Cons.prems(1) by (intro sum_list_mono) simp
  show ?case
  proof (cases "f x < g x")
    case True
    with le show ?thesis by simp
  next
    case False
    with Cons.prems have "\<exists>x \<in> set xs. f x < g x" "f x \<le> g x" by auto
    with Cons.IH Cons.prems(1) show ?thesis by simp
  qed
qed

lemma map_of_map_value:
  "map_of (map (\<lambda>(k, v). (k, f v)) xs) x = map_option f (map_of xs x)"
  by (induction xs) auto

lemma base_weight_pos: "0 < base_weight src"
  by (simp add: base_weight_def)

lemma weight_of_focused_pos: "0 < weight_of (calculate_focused_weights rd) src"
proof -
  let ?av = "filter (\<lambda>s. s \<noteq> ''prefilter_info'') (map fst rd)"
  let ?fw = "map (\<lambda>s. (s, base_weight s)) ?av"
  let ?tot = "sum_list (map snd ?fw)"
  have m: "map_of ?fw src = (if src \<in> set ?av then Some (base_weight src) else None)"
    by (induction ?av) (auto simp: map_of_map_restrict restrict_map_def)
  show ?thesis
  proof (cases "0 < ?tot")
    case True
    have "map_of (map (\<lambda>(s, w). (s, w / ?tot)) ?fw) src = map_option (\<lambda>w. w / ?tot) (map_of ?fw src)"
      by (rule map_of_map_value)
    with True m base_weight_pos [of src] show ?thesis
      by (auto simp: calculate_focused_weights_def Let_def weight_of_def split: option.splits)
  next
    case False
    with m base_weight_pos [of src] show ?thesis
      by (auto simp: calculate_focused_weights_def Let_def weight_of_def split: option.splits)
  qed
qed

lemma source_contribution_nonneg:
  assumes "0 \<le> kr" and "\<forall>s. 0 < weight_of weights s"
    and "distinct (map doc_id rs)" and "list_all (\<lambda>r. 0 \<le> score r) rs"
  shows "0 \<le> source_contribution kr weights d (src, rs)"
proof (cases "find (\<lambda>(rank, r). doc_id r = d) (ranked_from 1 rs)")
  case None
  with assms(3) show ?thesis
    by (simp add: source_contribution_def entry_sum_distinct)
next
  case (Some p)
  obtain rank x where p: "p = (rank, x)" by (cases p)
  from find_ranked_from_Some [OF Some [unfolded p]] have "1 \<le> rank" "x \<in> set rs" by simp_all
  with assms(4) have "0 \<le> score x" by (simp add: list_all_iff)
  from specified_contribution_nonneg [OF assms(1) assms(2) [rule_format] this \<open>1 \<le> rank\<close>]
    Some p assms(3)
  show ?thesis
    by (simp add: source_contribution_def entry_sum_distinct)
qed

lemma source_contribution_dominated:
  assumes kr: "0 \<le> kr" and w: "\<forall>s. 0 < weight_of weights s"
    and di: "distinct (map doc_id rs)" and nn: "list_all (\<lambda>r. 0 \<le> score r) rs"
    and dom: "src = ''prefilter_info'' \<or> dominates_in a b rs"
  shows "source_contribution kr weights b (src, rs) \<le> source_contribution kr weights a (src, rs)"
    and "src \<noteq> ''prefilter_info'' \<Longrightarrow> occurrence b rs \<noteq> None \<Longrightarrow>
         source_contribution kr weights b (src, rs) < source_contribution kr weights a (src, rs)"
proof -
  have main: "(occurrence b rs = None \<longrightarrow>
                 source_contribution kr weights b (src, rs) \<le> source_contribution kr weights a (src, rs)) \<and>
              (occurrence b rs \<noteq> None \<longrightarrow>
                 source_contribution kr weights b (src, rs) < source_contribution kr weights a (src, rs))"
    if ns: "src \<noteq> ''prefilter_info''"
  proof (cases "occurrence b rs")
    case None
    then have "source_contribution kr weights b (src, rs) = 0"
      using ns di by (simp add: source_contribution_def entry_sum_distinct occurrence_def)
    with source_contribution_nonneg [OF kr w di nn, of a src] None show ?thesis by simp
  next
    case (Some pb)
    obtain rb xb where pb: "pb = (rb, xb)" by (cases pb)
    from dom ns Some pb obtain ra xa where oa: "occurrence a rs = Some (ra, xa)"
      and lt: "ra < rb" "score xb < score xa"
      by (auto simp: dominates_in_def split: option.splits)
    from find_ranked_from_Some [OF oa [unfolded occurrence_def]] have ra: "1 \<le> ra" by simp
    from find_ranked_from_Some [OF Some [unfolded occurrence_def pb]] have "xb \<in> set rs" by simp
    with nn have sb: "0 \<le> score xb" by (simp add: list_all_iff)
    from specified_contribution_strict [OF kr w [rule_format] ra lt(1) sb lt(2)]
    have "specified_contribution kr (weight_of weights src) (score xb) rb
            < specified_contribution kr (weight_of weights src) (score xa) ra" .
    with Some pb oa ns di show ?thesis
      by (simp add: source_contribution_def entry_sum_distinct occurrence_def)
  qed
  show "source_contribution kr weights b (src, rs) \<le> source_contribution kr weights a (src, rs)"
  proof (cases "src = ''prefilter_info''")
    case True
    then show ?thesis by (simp add: source_contribution_def)
  next
    case False
    from main [OF False] show ?thesis by (cases "occurrence b rs") auto
  qed
  show "source_contribution kr weights b (src, rs) < source_contribution kr weights a (src, rs)"
    if "src \<noteq> ''prefilter_info''" "occurrence b rs \<noteq> None"
    using main [OF that(1)] that(2) by simp
qed

lemma specified_total_dominated:
  assumes kr: "0 \<le> kr" and w: "\<forall>s. 0 < weight_of weights s"
    and cl: "clean_rankings nr" and dom: "dominates a b nr" and app: "appears b nr"
  shows "0 \<le> specified_total kr weights nr b"
    and "specified_total kr weights nr b < specified_total kr weights nr a"
proof -
  have each: "distinct (map doc_id rs) \<and> list_all (\<lambda>r. 0 \<le> score r) rs \<and>
              (src = ''prefilter_info'' \<or> dominates_in a b rs)"
    if "(src, rs) \<in> set nr" for src rs
    using that cl dom by (auto simp: clean_rankings_def dominates_def list_all_iff)
  have "0 \<le> source_contribution kr weights b e" if "e \<in> set nr" for e
  proof -
    obtain src rs where e: "e = (src, rs)" by (cases e)
    with that each [of src rs] source_contribution_nonneg [OF kr w, of rs b src]
    show ?thesis by simp
  qed
  then show "0 \<le> specified_total kr weights nr b"
    unfolding specified_total_sources by (intro sum_list_nonneg) auto
  have le: "\<forall>e \<in> set nr. source_contribution kr weights b e \<le> source_contribution kr weights a e"
  proof
    fix e assume "e \<in> set nr"
    obtain src rs where e: "e = (src, rs)" by (cases e)
    with \<open>e \<in> set nr\<close> each [of src rs]
      source_contribution_dominated(1) [OF kr w, of rs src a b]
    show "source_contribution kr weights b e \<le> source_contribution kr weights a e" by simp
  qed
  from app obtain src rs where in_nr: "(src, rs) \<in> set nr" and ns: "src \<noteq> ''prefilter_info''"
    and occ: "occurrence b rs \<noteq> None"
    by (auto simp: appears_def list_ex_iff)
  from each [OF in_nr] source_contribution_dominated(2) [OF kr w _ _ _ ns occ, of a]
  have "source_contribution kr weights b (src, rs) < source_contribution kr weights a (src, rs)"
    by simp
  with in_nr have "\<exists>e \<in> set nr. source_contribution kr weights b e < source_contribution kr weights a e"
    by blast
  with le show "specified_total kr weights nr b < specified_total kr weights nr a"
    unfolding specified_total_sources by (rule sum_list_strict)
qed

subsection \<open>Recorded ranks\<close>

lemma ds_ok_lookup: "ds_ok ds \<Longrightarrow> map_of ds d = Some sd \<Longrightarrow> sd_ok sd"
  by (auto simp: ds_ok_def list_all_iff dest: map_of_SomeD)

lemma ds_ok_update: "ds_ok ds \<Longrightarrow> sd_ok sd \<Longrightarrow> ds_ok (AList.update d sd ds)"
  by (induction ds) (auto simp: ds_ok_def)

lemma sd_ok_step:
  assumes "sd_ok sd"
  shows "sd_ok (sd\<lparr>total_score := t, source_scores := AList.update src x (source_scores sd),
                    rank_info := AList.update src rank (rank_info sd)\<rparr>)"
  using assms by (simp add: sd_ok_def update_keys distinct_update)

lemma add_contribution_ok:
  assumes "ds_ok ds"
  shows "ds_ok (add_contribution src rank r x ds)"
proof (cases "map_of ds (doc_id r)")
  case None
  have "sd_ok \<lparr>total_score = 0, source_scores = [], rank_info = [], result = r, boost_factor = None\<rparr>"
    by (simp add: sd_ok_def)
  from sd_ok_step [OF this] None assms show ?thesis
    by (simp add: add_contribution_def Let_def ds_ok_update)
next
  case (Some sd)
  from sd_ok_step [OF ds_ok_lookup [OF assms Some]] Some assms show ?thesis
    by (simp add: add_contribution_def Let_def ds_ok_update)
qed

lemma ranks_of_add_contribution:
  "map_of (ranks_of (add_contribution src rank r x ds) d) =
     (if doc_id r = d then (map_of (ranks_of ds d))(src \<mapsto> rank) else map_of (ranks_of ds d))"
  by (auto simp: ranks_of_def add_contribution_def Let_def update_conv' split: option.splits)

lemma rrf_source_ranks:
  assumes "rrf_source kv src weight n rs ds = Inr ds'" and "distinct (map doc_id rs)"
  shows "map_of (ranks_of ds' d) =
           (case find (\<lambda>(rank, r). doc_id r = d) (ranked_from n rs) of
              None \<Rightarrow> map_of (ranks_of ds d)
            | Some (rank, x) \<Rightarrow> (map_of (ranks_of ds d))(src \<mapsto> rank))"
  using assms
proof (induction rs arbitrary: n ds)
  case Nil
  then show ?case by simp
next
  case (Cons r rs)
  from Cons.prems(1) obtain kr where
    step: "rrf_source kv src weight (Suc n) rs
             (add_contribution src n r (rrf_contribution kr weight (score r) n) ds) = Inr ds'"
    by (auto split: option.splits if_splits)
  from Cons.prems(2) have di: "distinct (map doc_id rs)" by simp
  note ih = Cons.IH [OF step di]
  show ?case
  proof (cases "doc_id r = d")
    case True
    with Cons.prems(2) have "d \<notin> doc_id ` set rs" by auto
    then have "find (\<lambda>(rank, r). doc_id r = d) (ranked_from (Suc n) rs) = None"
      by (simp add: find_ranked_from_None)
    with ih True show ?thesis by (simp add: ranks_of_add_contribution)
  next
    case False
    with ih show ?thesis
      by (auto simp: ranks_of_add_contribution fun_upd_def split: option.splits)
  qed
qed

lemma rrf_source_ok:
  "rrf_source kv src weight n rs ds = Inr ds' \<Longrightarrow> ds_ok ds \<Longrightarrow> ds_ok ds'"
proof (induction rs arbitrary: n ds)
  case Nil
  then show ?case by simp
next
  case (Cons r rs)
  from Cons.prems(1) obtain kr where
    step: "rrf_source kv src weight (Suc n) rs
             (add_contribution src n r (rrf_contribution kr weight (score r) n) ds) = Inr ds'"
    by (auto split: option.splits if_splits)
  from Cons.IH [OF step add_contribution_ok [OF Cons.prems(2)]] show ?case .
qed

text \<open>The rank a document is to have for a source, given the rankings.\<close>

lemma rrf_sources_ranks:
  assumes "rrf_sources kv weights nr ds = Inr ds'" and "clean_rankings nr"
    and "\<forall>s \<in> fst ` set nr. map_of (ranks_of ds d) s = None"
  shows "map_of (ranks_of ds' d) s =
           (case map_of nr s of
              None \<Rightarrow> map_of (ranks_of ds d) s
            | Some rs \<Rightarrow>
                if s = ''prefilter_info'' then None
                else map_option fst (occurrence d rs))"
  using assms
proof (induction nr arbitrary: ds)
  case Nil
  then show ?case by simp
next
  case (Cons entry rest)
  obtain src rs where entry: "entry = (src, rs)" by (cases entry)
  from Cons.prems(2) entry have cl: "clean_rankings rest" and di: "distinct (map doc_id rs)"
    and nin: "src \<notin> fst ` set rest"
    by (auto simp: clean_rankings_def)
  show ?case
  proof (cases "src = ''prefilter_info'' \<or> rs = []")
    case True
    with Cons.prems(1) entry have s2: "rrf_sources kv weights rest ds = Inr ds'" by simp
    from Cons.prems(3) have "\<forall>s \<in> fst ` set rest. map_of (ranks_of ds d) s = None" by simp
    note ih = Cons.IH [OF s2 cl this]
    show ?thesis
    proof (cases "s = src")
      case s: True
      with nin have "map_of rest s = None" by (simp add: map_of_eq_None_iff)
      with ih s entry True Cons.prems(3) show ?thesis
        by (auto simp: occurrence_def)
    next
      case False
      with ih entry show ?thesis by simp
    qed
  next
    case False
    with Cons.prems(1) entry obtain ds1 where
      s1: "rrf_source kv src (weight_of weights src) 1 rs ds = Inr ds1" and
      s2: "rrf_sources kv weights rest ds1 = Inr ds'"
      by (auto simp: and_then_Inr)
    note r1 = rrf_source_ranks [OF s1 di, of d]
    have none1: "\<forall>s \<in> fst ` set rest. map_of (ranks_of ds1 d) s = None"
    proof
      fix s assume s: "s \<in> fst ` set rest"
      with nin have "s \<noteq> src" by auto
      moreover from s Cons.prems(3) have "map_of (ranks_of ds d) s = None" by auto
      ultimately show "map_of (ranks_of ds1 d) s = None"
        unfolding r1 by (simp split: option.splits)
    qed
    note ih = Cons.IH [OF s2 cl none1]
    show ?thesis
    proof (cases "s = src")
      case True
      with nin have "map_of rest s = None" by (simp add: map_of_eq_None_iff)
      with ih True entry False r1 Cons.prems(3) show ?thesis
        by (auto simp: occurrence_def split: option.splits)
    next
      case ne: False
      have "map_of (ranks_of ds1 d) s = map_of (ranks_of ds d) s"
        unfolding r1 using ne by (simp split: option.splits)
      with ih ne entry show ?thesis by (simp split: option.splits)
    qed
  qed
qed

lemma rrf_sources_ok:
  "rrf_sources kv weights nr ds = Inr ds' \<Longrightarrow> ds_ok ds \<Longrightarrow> ds_ok ds'"
proof (induction nr arbitrary: ds)
  case Nil
  then show ?case by simp
next
  case (Cons entry rest)
  obtain src rs where entry: "entry = (src, rs)" by (cases entry)
  show ?case
  proof (cases "src = ''prefilter_info'' \<or> rs = []")
    case True
    with Cons entry show ?thesis by simp
  next
    case False
    with Cons.prems(1) entry obtain ds1 where
      s1: "rrf_source kv src (weight_of weights src) 1 rs ds = Inr ds1" and
      s2: "rrf_sources kv weights rest ds1 = Inr ds'"
      by (auto simp: and_then_Inr)
    from Cons.IH [OF s2 rrf_source_ok [OF s1 Cons.prems(2)]] show ?thesis .
  qed
qed

lemma calculated_ranks:
  assumes "calculate_focused_rrf_scores engine nr weights = Inr ds" and "clean_rankings nr"
  shows "map_of (ranks_of ds d) s =
           (case map_of nr s of
              None \<Rightarrow> None
            | Some rs \<Rightarrow> if s = ''prefilter_info'' then None else map_option fst (occurrence d rs))"
    and "ds_ok ds"
proof -
  from assms(1) have c: "rrf_sources (engine_k engine) weights nr [] = Inr ds"
    by (simp add: calculate_focused_rrf_scores_def)
  have e: "map_of (ranks_of [] d) s' = None" for s'
    by (simp add: ranks_of_def)
  from rrf_sources_ranks [OF c assms(2), of d s] e
  show "map_of (ranks_of ds d) s =
           (case map_of nr s of
              None \<Rightarrow> None
            | Some rs \<Rightarrow> if s = ''prefilter_info'' then None else map_option fst (occurrence d rs))"
    by (simp split: option.splits)
  from rrf_sources_ok [OF c] show "ds_ok ds" by (simp add: ds_ok_def)
qed

subsection \<open>Boosts\<close>

lemma focused_boost_factor_split:
  "focused_boost_factor lang sd =
     metadata_boost lang (result sd) *
     count_boost (length (source_scores sd))
       (length (filter (\<lambda>(src, rank). rank \<le> 3) (rank_info sd)))
       (length (filter (\<lambda>(src, rank). rank = 1) (rank_info sd)))"
  by (simp add: focused_boost_factor_def metadata_boost_def count_boost_def Let_def)

lemma metadata_boost_pos: "0 < metadata_boost lang r"
  by (simp add: metadata_boost_def)

lemma count_boost_mono:
  assumes "n \<le> n'" "t \<le> t'" "f \<le> f'"
  shows "count_boost n t f \<le> count_boost n' t' f'" and "0 < count_boost n t f"
proof -
  define fa where "fa = (\<lambda>n::nat. if n \<ge> 2 then 1 + 0.3 * (real n - 1) else (1::real))"
  define fb where "fb = (\<lambda>t::nat. if t \<ge> 2 then 1.5 else (1::real))"
  define fc where "fc = (\<lambda>f::nat. if f \<ge> 1 then 1.8 else (1::real))"
  have cb: "count_boost x y z = fa x * fb y * fc z" for x y z
    by (simp add: count_boost_def fa_def fb_def fc_def)
  have a: "fa n \<le> fa n'" "1 \<le> fa n" "1 \<le> fa n'" using assms(1) by (auto simp: fa_def)
  have b: "fb t \<le> fb t'" "1 \<le> fb t" "1 \<le> fb t'" using assms(2) by (auto simp: fb_def)
  have c: "fc f \<le> fc f'" "1 \<le> fc f" "1 \<le> fc f'" using assms(3) by (auto simp: fc_def)
  have ab: "fa n * fb t \<le> fa n' * fb t'"
  proof (rule mult_mono)
    show "fa n \<le> fa n'" by (rule a(1))
    show "fb t \<le> fb t'" by (rule b(1))
    show "0 \<le> fa n'" using a(3) by linarith
    show "0 \<le> fb t" using b(2) by linarith
  qed
  have ab0: "0 \<le> fa n' * fb t'"
    using a(3) b(3) by (intro mult_nonneg_nonneg) linarith+
  have "fa n * fb t * fc f \<le> fa n' * fb t' * fc f'"
  proof (rule mult_mono)
    show "fa n * fb t \<le> fa n' * fb t'" by (rule ab)
    show "fc f \<le> fc f'" by (rule c(1))
    show "0 \<le> fa n' * fb t'" by (rule ab0)
    show "0 \<le> fc f" using c(2) by linarith
  qed
  then show "count_boost n t f \<le> count_boost n' t' f'" by (simp only: cb)
  have "0 < fa n * fb t" using a(2) b(2) by (intro mult_pos_pos) linarith+
  moreover have "0 < fc f" using c(2) by linarith
  ultimately have "0 < fa n * fb t * fc f" by (rule mult_pos_pos)
  then show "0 < count_boost n t f" by (simp only: cb)
qed

lemma filtered_count_le:
  fixes A B :: "(string \<times> nat) list"
  assumes dB: "distinct (map fst B)"
    and sub: "\<forall>(s, rb) \<in> set B. \<exists>ra. (s, ra) \<in> set A \<and> 1 \<le> ra \<and> ra < rb"
    and PQ: "\<And>s ra rb. P (s, rb) \<Longrightarrow> 1 \<le> ra \<Longrightarrow> ra < rb \<Longrightarrow> Q (s, ra)"
  shows "length (filter P B) \<le> length (filter Q A)"
proof -
  have "distinct (map fst (filter P B))"
    using dB by (rule distinct_map_filter)
  then have "length (filter P B) = card (set (map fst (filter P B)))"
    by (metis distinct_card length_map)
  also have "\<dots> \<le> card (set (map fst (filter Q A)))"
  proof (rule card_mono)
    show "finite (set (map fst (filter Q A)))" by simp
    show "set (map fst (filter P B)) \<subseteq> set (map fst (filter Q A))"
    proof
      fix s assume "s \<in> set (map fst (filter P B))"
      then obtain rb where in_B: "(s, rb) \<in> set B" and p: "P (s, rb)" by auto
      from sub in_B obtain ra where in_A: "(s, ra) \<in> set A" and lt: "1 \<le> ra" "ra < rb" by auto
      from PQ [OF p lt] in_A have "(s, ra) \<in> set (filter Q A)" by simp
      then show "s \<in> set (map fst (filter Q A))" by force
    qed
  qed
  also have "\<dots> \<le> length (map fst (filter Q A))" by (rule card_length)
  finally show ?thesis by simp
qed

lemma doc_total_boosted:
  "doc_total (apply_focused_contextual_boosts ds qa) d =
     (case map_of ds d of
        None \<Rightarrow> 0
      | Some sd \<Rightarrow> total_score sd * focused_boost_factor (language qa) sd)"
proof -
  have "map_of (apply_focused_contextual_boosts ds qa) d =
          map_option (\<lambda>sd. sd\<lparr>total_score := total_score sd * focused_boost_factor (language qa) sd,
                               boost_factor := Some (focused_boost_factor (language qa) sd)\<rparr>)
            (map_of ds d)"
    unfolding apply_focused_contextual_boosts_def by (rule map_of_map_value)
  then show ?thesis by (simp add: doc_total_def split: option.splits)
qed

lemma ranks_of_member:
  assumes "ds_ok ds"
  shows "(s, r) \<in> set (ranks_of ds d) \<longleftrightarrow> map_of (ranks_of ds d) s = Some r"
proof (cases "map_of ds d")
  case None
  then show ?thesis by (simp add: ranks_of_def)
next
  case (Some sd)
  from ds_ok_lookup [OF assms Some] have "distinct (map fst (rank_info sd))"
    by (simp add: sd_ok_def)
  with Some show ?thesis by (simp add: ranks_of_def)
qed

subsection \<open>Monotonicity\<close>

text \<open>
  Claim C3 (fusion monotonicity), as the code has it.  Take rankings in which no source
  lists a document twice and no normalized score is negative, the weights the fusion
  computes, and a constant \<open>k\<close> that is not negative.  If a document \<open>a\<close> has, in every
  ranking in which \<open>b\<close> appears, a smaller rank and a higher normalized score than \<open>b\<close>,
  and \<open>b\<close> does not get a larger boost from its metadata (language match, full
  enrichment) than \<open>a\<close>, then the total score of \<open>a\<close> after the boosts is higher than
  that of \<open>b\<close>.
\<close>

theorem fusion_monotone:
  assumes k: "py_num (engine_k engine) = Some kr" "0 \<le> kr"
    and cl: "clean_rankings nr"
    and calc: "calculate_focused_rrf_scores engine nr (calculate_focused_weights rd) = Inr ds"
    and dom: "dominates a b nr" and app: "appears b nr"
    and md: "stored_metadata_boost (language qa) ds b \<le> stored_metadata_boost (language qa) ds a"
  shows "doc_total (apply_focused_contextual_boosts ds qa) b
           < doc_total (apply_focused_contextual_boosts ds qa) a"
proof -
  let ?w = "calculate_focused_weights rd"
  have w: "\<forall>s. 0 < weight_of ?w s" by (simp add: weight_of_focused_pos)
  from clean_fusion_totals [OF k(1) calc]
  have tot: "doc_total ds d = specified_total kr ?w nr d" for d .
  from specified_total_dominated [OF k(2) w cl dom app] tot
  have tb: "0 \<le> doc_total ds b" and tab: "doc_total ds b < doc_total ds a" by simp_all
  note ranks = calculated_ranks(1) [OF calc cl]
  note ok = calculated_ranks(2) [OF calc cl]
  have keys: "distinct (map fst nr)" using cl by (simp add: clean_rankings_def)
  have sub: "\<forall>(s, rb) \<in> set (ranks_of ds b).
               \<exists>ra. (s, ra) \<in> set (ranks_of ds a) \<and> 1 \<le> ra \<and> ra < rb"
  proof (clarify)
    fix s rb assume "(s, rb) \<in> set (ranks_of ds b)"
    then have "map_of (ranks_of ds b) s = Some rb" by (simp add: ranks_of_member [OF ok])
    with ranks [of b s]
    have e: "(case map_of nr s of
                None \<Rightarrow> None
              | Some rs \<Rightarrow> if s = ''prefilter_info'' then None
                          else map_option fst (occurrence b rs)) = Some rb"
      by simp
    then obtain rs where nr: "map_of nr s = Some rs" by (cases "map_of nr s") auto
    with e have ns: "s \<noteq> ''prefilter_info''"
      and ob': "map_option fst (occurrence b rs) = Some rb"
      by (auto split: if_splits)
    from ob' obtain xb where ob: "occurrence b rs = Some (rb, xb)"
      by (cases "occurrence b rs") auto
    from nr have "(s, rs) \<in> set nr" by (rule map_of_SomeD)
    with dom ns have "dominates_in a b rs" by (auto simp: dominates_def list_all_iff)
    with ob obtain ra xa where oa: "occurrence a rs = Some (ra, xa)" and lt: "ra < rb"
      by (auto simp: dominates_in_def split: option.splits)
    from ranks [of a s] nr ns oa have "map_of (ranks_of ds a) s = Some ra" by simp
    then have "(s, ra) \<in> set (ranks_of ds a)" by (simp add: ranks_of_member [OF ok])
    moreover from find_ranked_from_Some [OF oa [unfolded occurrence_def]] have "1 \<le> ra" by simp
    ultimately show "\<exists>ra. (s, ra) \<in> set (ranks_of ds a) \<and> 1 \<le> ra \<and> ra < rb"
      using lt by blast
  qed
  from app obtain src rs where in_nr: "(src, rs) \<in> set nr" and ns: "src \<noteq> ''prefilter_info''"
    and occ: "occurrence b rs \<noteq> None"
    by (auto simp: appears_def list_ex_iff)
  from in_nr keys have nr: "map_of nr src = Some rs" by simp
  from occ obtain rb xb where ob: "occurrence b rs = Some (rb, xb)" by auto
  with ranks [of b src] nr ns have "map_of (ranks_of ds b) src = Some rb" by simp
  then have inb: "(src, rb) \<in> set (ranks_of ds b)" by (simp add: ranks_of_member [OF ok])
  with sub obtain ra where ina: "(src, ra) \<in> set (ranks_of ds a)" by blast
  from inb obtain sdb where sdb: "map_of ds b = Some sdb"
    by (cases "map_of ds b") (auto simp: ranks_of_def)
  from ina obtain sda where sda: "map_of ds a = Some sda"
    by (cases "map_of ds a") (auto simp: ranks_of_def)
  from sda sdb have ra: "ranks_of ds a = rank_info sda" and rb: "ranks_of ds b = rank_info sdb"
    by (simp_all add: ranks_of_def)
  from ds_ok_lookup [OF ok sda] ds_ok_lookup [OF ok sdb]
  have oka: "sd_ok sda" and okb: "sd_ok sdb" .
  then have dB: "distinct (map fst (rank_info sdb))"
    and la: "length (source_scores sda) = length (rank_info sda)"
    and lb: "length (source_scores sdb) = length (rank_info sdb)"
    by (simp_all add: sd_ok_def) (metis length_map)+
  note sub' = sub [unfolded ra rb]
  have c1: "length (filter (\<lambda>x. True) (rank_info sdb)) \<le> length (filter (\<lambda>x. True) (rank_info sda))"
    by (rule filtered_count_le [OF dB sub']) simp
  have c2: "length (filter (\<lambda>(src, rank). rank \<le> 3) (rank_info sdb))
              \<le> length (filter (\<lambda>(src, rank). rank \<le> 3) (rank_info sda))"
    by (rule filtered_count_le [OF dB sub']) simp
  have c3: "length (filter (\<lambda>(src, rank). rank = 1) (rank_info sdb))
              \<le> length (filter (\<lambda>(src, rank). rank = 1) (rank_info sda))"
    by (rule filtered_count_le [OF dB sub']) simp
  from c1 la lb have c1': "length (source_scores sdb) \<le> length (source_scores sda)" by simp
  note cb = count_boost_mono [OF c1' c2 c3]
  from md sda sdb have mb: "metadata_boost (language qa) (result sdb)
                              \<le> metadata_boost (language qa) (result sda)"
    by (simp add: stored_metadata_boost_def)
  have boost: "focused_boost_factor (language qa) sdb \<le> focused_boost_factor (language qa) sda"
    unfolding focused_boost_factor_split
    using mb cb metadata_boost_pos [of "language qa" "result sda"]
    by (intro mult_mono) (simp_all add: less_imp_le)
  have bpos: "0 < focused_boost_factor (language qa) sdb"
    unfolding focused_boost_factor_split
    using cb(2) metadata_boost_pos [of "language qa" "result sdb"] by (intro mult_pos_pos)
  from tb tab sda sdb have t: "0 \<le> total_score sdb" "total_score sdb < total_score sda"
    by (simp_all add: doc_total_def)
  have "total_score sdb * focused_boost_factor (language qa) sdb
          < total_score sda * focused_boost_factor (language qa) sdb"
    using t(2) bpos by (rule mult_strict_right_mono)
  also have "\<dots> \<le> total_score sda * focused_boost_factor (language qa) sda"
    using boost t by (intro mult_left_mono) simp_all
  finally show ?thesis
    using sda sdb by (simp add: doc_total_boosted)
qed

lemma five_weights: "calculate_focused_weights five_ranked = [(''bm25_focused'', 1)]"
  by (simp add: calculate_focused_weights_def five_ranked_def base_weight_def)

lemma five_calculated:
  "calculate_focused_rrf_scores (init_rrf_fusion_engine None) five_ranked
     (calculate_focused_weights five_ranked) = Inr five_scored"
  unfolding five_weights
  by (simp add: calculate_focused_rrf_scores_def init_rrf_fusion_engine_def five_ranked_def
        five_scored_def ranked_result_def and_then_def weight_of_def add_contribution_def
        rrf_contribution_def)

lemma five_clean: "clean_rankings five_ranked"
  by (simp add: clean_rankings_def five_ranked_def ranked_result_def)

lemma five_dominates_45: "dominates ''d4'' ''d5'' five_ranked"
  by (simp add: dominates_def dominates_in_def occurrence_def five_ranked_def ranked_result_def)

lemma five_dominates_12: "dominates ''d1'' ''d2'' five_ranked"
  by (simp add: dominates_def dominates_in_def occurrence_def five_ranked_def ranked_result_def)

lemma five_appears: "appears ''d5'' five_ranked" "appears ''d2'' five_ranked"
  by (simp_all add: appears_def occurrence_def five_ranked_def ranked_result_def)

lemma language_church: "upper (language church_query) = ''EN''"
  by (simp add: church_query_def upper_def upper_char_def ascii_lowercase_def ascii_uppercase_def)

lemma five_boosted:
  "doc_total (apply_focused_contextual_boosts five_scored church_query) ''d4'' = 5 / 7"
  "doc_total (apply_focused_contextual_boosts five_scored church_query) ''d5'' = 1617 / 2000"
  by (simp_all add: doc_total_boosted five_scored_def focused_boost_factor_def Let_def
        language_church ranked_result_def dict_get_def dict_get_default_def)

text \<open>
  The theorem at the first two documents of the five, neither of which has a boost from
  its metadata.
\<close>

theorem fusion_monotone_witness:
  "py_num (engine_k (init_rrf_fusion_engine None)) = Some 3 \<and>
   clean_rankings five_ranked \<and>
   calculate_focused_rrf_scores (init_rrf_fusion_engine None) five_ranked
     (calculate_focused_weights five_ranked) = Inr five_scored \<and>
   dominates ''d1'' ''d2'' five_ranked \<and> appears ''d2'' five_ranked \<and>
   stored_metadata_boost (language church_query) five_scored ''d2''
     \<le> stored_metadata_boost (language church_query) five_scored ''d1'' \<and>
   doc_total (apply_focused_contextual_boosts five_scored church_query) ''d2''
     < doc_total (apply_focused_contextual_boosts five_scored church_query) ''d1''"
proof -
  have k: "py_num (engine_k (init_rrf_fusion_engine None)) = Some 3"
    by (simp add: init_rrf_fusion_engine_def)
  have k0: "(0::real) \<le> 3" by simp
  have md: "stored_metadata_boost (language church_query) five_scored ''d2''
              \<le> stored_metadata_boost (language church_query) five_scored ''d1''"
    by (simp add: stored_metadata_boost_def metadata_boost_def five_scored_def ranked_result_def
          dict_get_def dict_get_default_def)
  from fusion_monotone [OF k k0 five_clean five_calculated five_dominates_12 five_appears(2) md]
    k five_clean five_calculated five_dominates_12 five_appears(2) md
  show ?thesis by blast
qed

text \<open>
  The claim as stated fails: the fourth document has a better rank and a higher
  normalized score than the fifth in the only ranking, but the fifth is in the language
  of the query and fully enriched, and its boosts (1.2 \<times> 1.1) lift it above the fourth.
\<close>

theorem fusion_monotone_counterexample:
  "dominates ''d4'' ''d5'' five_ranked \<and> appears ''d5'' five_ranked \<and>
   boosted_total (init_rrf_fusion_engine None) five_ranked church_query ''d4'' = Inr (5 / 7) \<and>
   boosted_total (init_rrf_fusion_engine None) five_ranked church_query ''d5'' = Inr (1617 / 2000) \<and>
   (5 / 7 :: real) < 1617 / 2000"
  using five_dominates_45 five_appears(1) five_boosted
  by (simp add: boosted_total_def five_calculated and_then_def)


section \<open>Properties: two-level cache\<close>

lemma held_stats [simp]:
  "held cd (bump ns st cm) K v = held cd cm K v"
  "held cd (count_stat ns st cm) K v = held cd cm K v"
  by (simp_all add: held_def remote_agrees_def bump_def count_stat_def)

lemma get_memory_state:
  "held cd (snd (get_memory cm ns ck)) K v = held cd cm K v"
  by (simp add: get_memory_def split: option.splits)

lemma get_keeps: "held cd (snd (get cd cm ns k)) K v = held cd cm K v"
  by (simp add: get_def Let_def get_memory_state split: option.splits sum.splits)

lemma get_held:
  assumes "held cd cm (make_key ns k) v" and "\<not> int_stat ns"
  shows "fst (get cd cm ns k) = Inr (Some v)"
proof -
  have m: "fst (get_memory cm' ns (make_key ns k)) = Inr (Some v)"
    if "memory_cache cm' = memory_cache cm" for cm'
    using that assms by (simp add: get_memory_def held_def)
  have c: "memory_cache (count_stat a b c) = memory_cache c" for a b and c :: "'a cache_manager"
    by (simp add: count_stat_def bump_def)
  show ?thesis
  proof (cases "redis cm")
    case None
    with assms m show ?thesis by (simp add: get_def)
  next
    case (Some r)
    show ?thesis
    proof (cases "redis_get r (make_key ns k)")
      case (Inl e)
      with Some assms m c show ?thesis by (simp add: get_def)
    next
      case (Inr found)
      show ?thesis
      proof (cases found)
        case None
        with Some Inr assms m c show ?thesis by (simp add: get_def)
      next
        case f: (Some s)
        with Inr have "\<exists>dl. map_of (rstore r) (make_key ns k) = Some (s, dl) \<and>
                 (case dl of None \<Rightarrow> True | Some d \<Rightarrow> rclock r < d)"
          by (auto simp: redis_get_def redis_live_def split: if_splits option.splits)
        with assms(1) Some have "s = [] \<or> loads cd s = None \<or> loads cd s = Some v"
          by (auto simp: held_def remote_agrees_def split: option.splits)
        with Some Inr f assms m c show ?thesis by (auto simp: get_def Let_def)
      qed
    qed
  qed
qed

lemma map_of_filter_key:
  "map_of (filter (\<lambda>(k, e). Q k) xs) K = (if Q K then map_of xs K else None)"
  by (induction xs) auto

lemma store_value_keeps:
  assumes ck: "ck \<noteq> K"
    and w: "\<And>r r'. w r = Inr r' \<Longrightarrow>
              map_of (rstore r') K = map_of (rstore r) K \<and> rclock r' = rclock r"
  shows "held cd (snd (store_value perm w cm ns ck x)) K v = held cd cm K v"
proof (cases "redis cm")
  case None
  with ck show ?thesis
    by (simp add: store_value_def Let_def held_def remote_agrees_def update_conv'
          count_stat_def bump_def)
next
  case (Some r)
  show ?thesis
  proof (cases "w r")
    case (Inl e)
    with Some ck show ?thesis
      by (simp add: store_value_def Let_def held_def remote_agrees_def update_conv'
            count_stat_def bump_def)
  next
    case (Inr r')
    from w [OF Inr] Some Inr ck show ?thesis
      by (auto simp: store_value_def Let_def held_def remote_agrees_def update_conv'
            count_stat_def bump_def split: option.splits)
  qed
qed

lemma store_failed_keeps: "held cd (snd (store_failed cm ns)) K v = held cd cm K v"
  by (simp add: store_failed_def)

lemma redis_set_other:
  "ck \<noteq> K \<Longrightarrow> redis_set r ck s = Inr r' \<Longrightarrow>
   map_of (rstore r') K = map_of (rstore r) K \<and> rclock r' = rclock r"
  by (auto simp: redis_set_def update_conv' split: if_splits)

lemma redis_setex_other:
  "ck \<noteq> K \<Longrightarrow> redis_setex r ck ttl s = Inr r' \<Longrightarrow>
   map_of (rstore r') K = map_of (rstore r) K \<and> rclock r' = rclock r"
  by (auto simp: redis_setex_def update_conv' split: if_splits)

lemma set_temp_keeps:
  "make_key ns k \<noteq> K \<Longrightarrow> held cd (snd (set_temp cd cm ns k x ttl)) K v = held cd cm K v"
  by (auto simp: set_temp_def Let_def store_failed_keeps store_value_keeps redis_setex_other
           split: option.splits)

lemma set_permanent_keeps:
  "make_key ns k \<noteq> K \<Longrightarrow> held cd (snd (set_permanent cd cm ns k x)) K v = held cd cm K v"
  by (auto simp: set_permanent_def Let_def store_failed_keeps store_value_keeps redis_set_other
           split: option.splits)

lemma delete_keeps:
  "make_key ns k \<noteq> K \<Longrightarrow> held cd (snd (delete cm ns k)) K v = held cd cm K v"
  by (auto simp: delete_def Let_def held_def remote_agrees_def redis_delete_def bump_def
        delete_conv' map_of_filter_key split: option.splits sum.splits if_splits)

lemma redis_delete_weakens:
  assumes "redis_delete r ks = Inr (n, r')"
  shows "(map_of (rstore r') K = None \<or> map_of (rstore r') K = map_of (rstore r) K) \<and>
         rclock r' = rclock r"
  using assms by (auto simp: redis_delete_def map_of_filter_key split: if_splits)

lemma clear_namespace_keeps:
  assumes "\<not> startswith K (ns @ '':'')" and "held cd cm K v"
  shows "held cd (snd (clear_namespace cm ns)) K v"
proof -
  obtain n cm1 where c: "(case redis cm of
               None \<Rightarrow> (0, cm)
             | Some r \<Rightarrow>
                 (case redis_keys r (ns @ '':'') of
                    Inl e \<Rightarrow> (0, cm)
                  | Inr ks \<Rightarrow>
                      if ks = [] then (0, cm)
                      else (case redis_delete r ks of
                              Inl e \<Rightarrow> (0, cm)
                            | Inr (d, r') \<Rightarrow> (d, cm\<lparr>redis := Some r'\<rparr>)))) = (n :: nat, cm1)"
    by (cases "(case redis cm of
               None \<Rightarrow> (0 :: nat, cm)
             | Some r \<Rightarrow>
                 (case redis_keys r (ns @ '':'') of
                    Inl e \<Rightarrow> (0, cm)
                  | Inr ks \<Rightarrow>
                      if ks = [] then (0, cm)
                      else (case redis_delete r ks of
                              Inl e \<Rightarrow> (0, cm)
                            | Inr (d, r') \<Rightarrow> (d, cm\<lparr>redis := Some r'\<rparr>))))")
  have h1: "held cd cm1 K v"
  proof (cases "cm1 = cm")
    case True
    with assms show ?thesis by simp
  next
    case False
    with c obtain r ks d r' where r: "redis cm = Some r" and d: "redis_delete r ks = Inr (d, r')"
      and cm1: "cm1 = cm\<lparr>redis := Some r'\<rparr>"
      by (auto split: option.splits sum.splits if_splits)
    from redis_delete_weakens [OF d, of K] assms(2) r cm1 show ?thesis
      by (auto simp: held_def remote_agrees_def split: option.splits)
  qed
  have "snd (clear_namespace cm ns) =
          cm1\<lparr>memory_cache := filter (\<lambda>(k, v). \<not> startswith k (ns @ '':'')) (memory_cache cm1)\<rparr>"
    using c by (simp add: clear_namespace_def Let_def)
  with h1 assms(1) show ?thesis
    by (simp add: held_def remote_agrees_def map_of_filter_key)
qed

lemma map_redis_keeps:
  assumes "\<And>r. rstore (f r) = rstore r" and "\<And>r. rclock (f r) = rclock r"
  shows "held cd (map_redis f cm) K v = held cd cm K v"
  using assms
  by (cases "redis cm") (auto simp: held_def remote_agrees_def map_redis_def split: option.splits)

text \<open>The passing of time keeps what is held: an entry whose lifetime is over stays so.\<close>

lemma elapse_keeps:
  assumes "held cd cm K v"
  shows "held cd (map_redis (\<lambda>r. r\<lparr>rclock := rclock r + n\<rparr>) cm) K v"
  using assms
  by (cases "redis cm")
     (auto simp: held_def remote_agrees_def map_redis_def split: option.splits)

lemma cache_step_keeps:
  assumes "\<not> touches K ev" and "held cd cm K v"
  shows "held cd (cache_step cd cm ev) K v"
proof (cases ev)
  case (Elapse n)
  with assms show ?thesis by (simp add: elapse_keeps)
next
  case Outage
  with assms show ?thesis by (simp add: map_redis_keeps)
next
  case Recovery
  with assms show ?thesis by (simp add: map_redis_keeps)
next
  case (Get ns k)
  with assms show ?thesis by (simp add: get_keeps)
next
  case (Set ns k x ttl)
  with assms show ?thesis by (simp add: set_temp_keeps)
next
  case (SetPermanent ns k x)
  with assms show ?thesis by (simp add: set_permanent_keeps)
next
  case (Delete ns k)
  with assms show ?thesis by (simp add: delete_keeps)
next
  case (ClearNamespace ns)
  with assms show ?thesis by (simp add: clear_namespace_keeps)
qed

lemma run_events_keeps:
  assumes "\<forall>ev \<in> set evs. \<not> touches K ev" and "held cd cm K v"
  shows "held cd (run_events cd cm evs) K v"
  using assms unfolding run_events_def
  by (induction evs arbitrary: cm) (simp_all add: cache_step_keeps)

text \<open>
  A permanent write that returns true has put the value into the process-local
  dictionary, whether or not the remote write went through.
\<close>

lemma set_permanent_memory:
  assumes ok: "set_permanent cd cm ns k v = (Inr True, cm')"
  shows "map_of (memory_cache cm') (make_key ns k) = Some v \<and> \<not> int_stat ns"
proof -
  from ok obtain s where d: "dumps cd v = Some s"
    by (cases "dumps cd v") (auto simp: set_permanent_def Let_def store_failed_def split: if_splits)
  with ok have sv: "store_value True (\<lambda>r. redis_set r (make_key ns k) s) cm ns (make_key ns k) v
                      = (Inr True, cm')"
    by (simp add: set_permanent_def Let_def)
  show ?thesis
  proof (cases "redis cm")
    case None
    with sv show ?thesis
      by (auto simp: store_value_def Let_def update_conv' count_stat_def bump_def
               split: if_splits)
  next
    case (Some r)
    with sv show ?thesis
      by (cases "redis_set r (make_key ns k) s")
         (auto simp: store_value_def Let_def update_conv' count_stat_def bump_def
               split: if_splits)
  qed
qed

text \<open>
  When the remote write goes through and the value survives the round trip through its
  serialisation, the remote store agrees with the value afterwards.
\<close>

lemma set_permanent_written:
  assumes ok: "set_permanent cd cm ns k v = (Inr True, cm')"
    and acc: "remote_accepts cm"
    and d: "dumps cd v = Some s" and l: "loads cd s = Some v"
  shows "remote_agrees cd cm' (make_key ns k) v"
proof -
  from ok d have sv: "store_value True (\<lambda>r. redis_set r (make_key ns k) s) cm ns (make_key ns k) v
                      = (Inr True, cm')"
    by (simp add: set_permanent_def Let_def)
  show ?thesis
  proof (cases "redis cm")
    case None
    with sv show ?thesis
      by (auto simp: store_value_def Let_def remote_agrees_def count_stat_def bump_def
               split: if_splits)
  next
    case (Some r)
    with acc have "reachable r" by (simp add: remote_accepts_def)
    with sv Some l show ?thesis
      by (auto simp: store_value_def Let_def remote_agrees_def update_conv' count_stat_def
            bump_def redis_set_def split: if_splits)
  qed
qed

text \<open>
  When the remote write fails, the call still returns true and the remote store keeps
  what it had: it agrees with the new value afterwards exactly when it did before.
\<close>

lemma set_permanent_outage:
  assumes ok: "set_permanent cd cm ns k v = (Inr True, cm')"
    and r: "redis cm = Some r" and down: "\<not> reachable r"
  shows "remote_agrees cd cm' K w = remote_agrees cd cm K w"
proof -
  from ok obtain s where d: "dumps cd v = Some s"
    by (cases "dumps cd v") (auto simp: set_permanent_def Let_def store_failed_def split: if_splits)
  with ok have sv: "store_value True (\<lambda>r. redis_set r (make_key ns k) s) cm ns (make_key ns k) v
                      = (Inr True, cm')"
    by (simp add: set_permanent_def Let_def)
  with r down show ?thesis
    by (auto simp: store_value_def Let_def remote_agrees_def count_stat_def bump_def
          redis_set_def split: if_splits)
qed

text \<open>
  The condition on the remote store cannot be dropped: when the remote store holds
  under the cache key a live text that decodes to another value, that value is read as
  soon as the remote store is reachable.
\<close>

lemma remote_disagrees_read:
  assumes ok: "set_permanent cd cm ns k v = (Inr True, cm')"
    and dis: "\<not> remote_agrees cd cm' (make_key ns k) v"
  shows "fst (get cd (run_events cd cm' [Recovery]) ns k) \<noteq> Inr (Some v)"
proof -
  from set_permanent_memory [OF ok] have n: "\<not> int_stat ns" by simp
  from dis obtain r where r: "redis cm' = Some r"
    by (cases "redis cm'") (auto simp: remote_agrees_def)
  with dis obtain s dl where e: "map_of (rstore r) (make_key ns k) = Some (s, dl)"
    by (cases "map_of (rstore r) (make_key ns k)") (auto simp: remote_agrees_def)
  with dis r have s: "s \<noteq> []" and nn: "loads cd s \<noteq> None" and w: "loads cd s \<noteq> Some v"
    and live: "case dl of None \<Rightarrow> True | Some d \<Rightarrow> rclock r < d"
    by (auto simp: remote_agrees_def split: option.splits)
  from nn obtain w where l: "loads cd s = Some w" by auto
  from e live have "redis_live (r\<lparr>reachable := True\<rparr>) (make_key ns k) = Some s"
    by (auto simp: redis_live_def split: option.splits)
  with r n s l w show ?thesis
    by (auto simp: run_events_def map_redis_def get_def Let_def redis_get_def)
qed

text \<open>
  Cache keys are composed from the namespace and the key.  For keys without a colon, as
  the hexadecimal digests the callers use, different pairs compose to different cache
  keys.
\<close>

lemma split_at_first:
  "a \<notin> set xs \<Longrightarrow> a \<notin> set xs' \<Longrightarrow> xs @ a # ys = xs' @ a # ys' \<Longrightarrow> xs = xs' \<and> ys = ys'"
  by (induction xs arbitrary: xs') (auto simp: Cons_eq_append_conv append_eq_Cons_conv)

lemma make_key_inj:
  assumes "CHR '':'' \<notin> set k" and "CHR '':'' \<notin> set k'"
    and "make_key ns k = make_key ns' k'"
  shows "ns = ns' \<and> k = k'"
proof -
  from assms(3) have "rev (make_key ns k) = rev (make_key ns' k')" by simp
  then have "rev k @ CHR '':'' # rev ns = rev k' @ CHR '':'' # rev ns'"
    by (simp add: make_key_def)
  with assms(1,2) have "rev k = rev k' \<and> rev ns = rev ns'"
    by (intro split_at_first) simp_all
  then show ?thesis by simp
qed

text \<open>
  Claim C1 (permanent cache durability), as the code has it.  After
  \<^verbatim>\<open>set_permanent(ns, k, v)\<close> has returned true, and when the remote store does not
  then hold, under the cache key \<^verbatim>\<open>ns + ":" + k\<close>, a live text that decodes to another
  value, every later \<^verbatim>\<open>get(ns, k)\<close> returns \<open>v\<close>: after any passing of time, any
  outages of the remote store, any reads, and any writes and deletes under other cache
  keys, as long as no namespace is cleared whose prefix the cache key has.  The remote
  store is in that condition when the remote write went through and \<open>v\<close> survives the
  round trip through its serialisation, and when the remote write failed over a key the
  remote store has nothing under.
\<close>

theorem permanent_cache_durability:
  assumes "set_permanent cd cm ns k v = (Inr True, cm')"
    and "remote_agrees cd cm' (make_key ns k) v"
    and "\<forall>ev \<in> set evs. \<not> touches (make_key ns k) ev"
  shows "fst (get cd (run_events cd cm' evs) ns k) = Inr (Some v)"
proof -
  from set_permanent_memory [OF assms(1)] assms(2)
  have h: "held cd cm' (make_key ns k) v" and n: "\<not> int_stat ns"
    by (simp_all add: held_def)
  from run_events_keeps [OF assms(3) h] n show ?thesis by (rule get_held)
qed

text \<open>
  The permanent write of the examples returns true: with the remote store reachable, and
  during an outage.
\<close>

lemma fresh_set_permanent:
  "set_permanent text_codec fresh_cache_manager ''enrichment:permanent''
     ''5d41402abc4b2a76b9719d911017c592'' ''wiki''
   = (Inr True,
      snd (set_permanent text_codec fresh_cache_manager ''enrichment:permanent''
             ''5d41402abc4b2a76b9719d911017c592'' ''wiki''))"
  by (simp add: set_permanent_def store_value_def text_codec_def fresh_cache_manager_def
        init_cache_manager_def redis_set_def int_stat_def Let_def)

lemma outage_set_permanent:
  "set_permanent text_codec (run_events text_codec fresh_cache_manager [Outage])
     ''enrichment:permanent'' ''5d41402abc4b2a76b9719d911017c592'' ''wiki''
   = (Inr True,
      snd (set_permanent text_codec (run_events text_codec fresh_cache_manager [Outage])
             ''enrichment:permanent'' ''5d41402abc4b2a76b9719d911017c592'' ''wiki''))"
  by (simp add: set_permanent_def store_value_def text_codec_def fresh_cache_manager_def
        init_cache_manager_def redis_set_def int_stat_def Let_def run_events_def map_redis_def)

text \<open>
  The theorem at two enrichment entries.  The first is written with the remote store
  reachable and outlives a temporary write, more than a day, an outage with a read during
  it, and a temporary write under the same key in another namespace.  The second is
  written during an outage, over a key the remote store has nothing under, and outlives
  the recovery and more than a day.
\<close>

theorem permanent_cache_durability_witness:
  "fst (set_permanent text_codec fresh_cache_manager ''enrichment:permanent''
          ''5d41402abc4b2a76b9719d911017c592'' ''wiki'') = Inr True \<and>
   remote_agrees text_codec
     (snd (set_permanent text_codec fresh_cache_manager ''enrichment:permanent''
             ''5d41402abc4b2a76b9719d911017c592'' ''wiki''))
     (make_key ''enrichment:permanent'' ''5d41402abc4b2a76b9719d911017c592'') ''wiki'' \<and>
   fst (get text_codec
          (run_events text_codec
             (snd (set_permanent text_codec fresh_cache_manager ''enrichment:permanent''
                     ''5d41402abc4b2a76b9719d911017c592'' ''wiki''))
             [Set ''search:bm25:results'' ''q1'' ''ranking'' (Some 3600), Elapse 100000, Outage,
              Get ''enrichment:permanent'' ''5d41402abc4b2a76b9719d911017c592'', Recovery,
              Set ''enrichment:temp'' ''5d41402abc4b2a76b9719d911017c592'' ''draft'' None])
          ''enrichment:permanent'' ''5d41402abc4b2a76b9719d911017c592'')
     = Inr (Some ''wiki'') \<and>
   fst (set_permanent text_codec (run_events text_codec fresh_cache_manager [Outage])
          ''enrichment:permanent'' ''5d41402abc4b2a76b9719d911017c592'' ''wiki'') = Inr True \<and>
   remote_agrees text_codec
     (snd (set_permanent text_codec (run_events text_codec fresh_cache_manager [Outage])
             ''enrichment:permanent'' ''5d41402abc4b2a76b9719d911017c592'' ''wiki''))
     (make_key ''enrichment:permanent'' ''5d41402abc4b2a76b9719d911017c592'') ''wiki'' \<and>
   fst (get text_codec
          (run_events text_codec
             (snd (set_permanent text_codec (run_events text_codec fresh_cache_manager [Outage])
                     ''enrichment:permanent'' ''5d41402abc4b2a76b9719d911017c592'' ''wiki''))
             [Recovery, Elapse 100000])
          ''enrichment:permanent'' ''5d41402abc4b2a76b9719d911017c592'')
     = Inr (Some ''wiki'')"
proof -
  let ?K = "''5d41402abc4b2a76b9719d911017c592''"
  let ?a = "set_permanent text_codec fresh_cache_manager ''enrichment:permanent'' ?K ''wiki''"
  let ?b = "set_permanent text_codec (run_events text_codec fresh_cache_manager [Outage])
              ''enrichment:permanent'' ?K ''wiki''"
  let ?evs = "[Set ''search:bm25:results'' ''q1'' ''ranking'' (Some 3600), Elapse 100000, Outage,
               Get ''enrichment:permanent'' ?K, Recovery,
               Set ''enrichment:temp'' ?K ''draft'' None]"
  let ?evs' = "[Recovery, Elapse 100000] :: string cache_event list"
  have a1: "fst ?a = Inr True" using fresh_set_permanent by (simp add: prod_eq_iff)
  have a2: "remote_agrees text_codec (snd ?a) (make_key ''enrichment:permanent'' ?K) ''wiki''"
    by (simp add: remote_agrees_def set_permanent_def store_value_def text_codec_def
          fresh_cache_manager_def init_cache_manager_def redis_set_def int_stat_def Let_def
          count_stat_def bump_def make_key_def)
  have a3: "\<forall>ev \<in> set ?evs. \<not> touches (make_key ''enrichment:permanent'' ?K) ev"
    by (simp add: make_key_def)
  have b1: "fst ?b = Inr True" using outage_set_permanent by (simp add: prod_eq_iff)
  have b2: "remote_agrees text_codec (snd ?b) (make_key ''enrichment:permanent'' ?K) ''wiki''"
    by (simp add: remote_agrees_def set_permanent_def store_value_def text_codec_def
          fresh_cache_manager_def init_cache_manager_def redis_set_def int_stat_def Let_def
          count_stat_def bump_def make_key_def run_events_def map_redis_def)
  have b3: "\<forall>ev \<in> set ?evs'. \<not> touches (make_key ''enrichment:permanent'' ?K) ev"
    by simp
  from permanent_cache_durability [OF fresh_set_permanent a2 a3]
    permanent_cache_durability [OF outage_set_permanent b2 b3] a1 a2 b1 b2
  show ?thesis by blast
qed

text \<open>
  The claim as stated fails.  An enrichment entry is stored permanently; the remote
  store goes away; a newer entry is stored under the same key, and
  \<^verbatim>\<open>set_permanent\<close> returns true although the remote write failed; the remote store
  comes back.  The read that follows returns the older entry.
\<close>

theorem permanent_cache_durability_counterexample:
  "fst (set_permanent text_codec
          (run_events text_codec fresh_cache_manager
             [SetPermanent ''enrichment:permanent'' ''5d41402abc4b2a76b9719d911017c592''
                ''summary of 2024'',
              Outage])
          ''enrichment:permanent'' ''5d41402abc4b2a76b9719d911017c592'' ''summary of 2025'')
     = Inr True \<and>
   fst (get text_codec
          (run_events text_codec
             (snd (set_permanent text_codec
                     (run_events text_codec fresh_cache_manager
                        [SetPermanent ''enrichment:permanent''
                           ''5d41402abc4b2a76b9719d911017c592'' ''summary of 2024'',
                         Outage])
                     ''enrichment:permanent'' ''5d41402abc4b2a76b9719d911017c592''
                     ''summary of 2025''))
             [Recovery])
          ''enrichment:permanent'' ''5d41402abc4b2a76b9719d911017c592'')
     = Inr (Some ''summary of 2024'') \<and>
   ''summary of 2024'' \<noteq> ''summary of 2025''"
  by (simp add: set_permanent_def store_value_def text_codec_def
        fresh_cache_manager_def init_cache_manager_def redis_set_def
        int_stat_def Let_def run_events_def map_redis_def get_def get_memory_def
        redis_get_def redis_live_def make_key_def count_stat_def bump_def)

text \<open>
  Why the theorem speaks of cache keys and not of pairs of a namespace and a key: with a
  colon in the key, another pair composes to the same cache key, and a temporary write
  there replaces the permanent entry.
\<close>

lemma composed_key_shared:
  "make_key ''enrichment'' ''permanent:abc'' = make_key ''enrichment:permanent'' ''abc'' \<and>
   fst (get text_codec
          (run_events text_codec
             (snd (set_permanent text_codec fresh_cache_manager ''enrichment:permanent'' ''abc'' ''wiki''))
             [Set ''enrichment'' ''permanent:abc'' ''draft'' (Some 60), Elapse 3600])
          ''enrichment:permanent'' ''abc'')
     = Inr (Some ''draft'')"
  by (simp add: set_permanent_def set_temp_def store_value_def text_codec_def
        fresh_cache_manager_def init_cache_manager_def redis_set_def redis_setex_def
        int_stat_def Let_def run_events_def map_redis_def get_def get_memory_def
        redis_get_def redis_live_def make_key_def effective_ttl_def count_stat_def bump_def)

end
